theory Spec2Isabelle
  imports Complex_Main "HOL-Library.AList" "HOL-Library.Log_Nat"
begin

section \<open>Exceptions\<close>

text \<open>
  The exceptions that can cross the interfaces of \<^verbatim>\<open>BenchReport\<close>. The class
  raises \<^verbatim>\<open>AttributeError\<close> and \<^verbatim>\<open>KeyError\<close> itself, each with a message;
  \<^verbatim>\<open>TypeError\<close> is what Python raises for \<^verbatim>\<open>int - None\<close>,
  \<^verbatim>\<open>OverflowError\<close> for an integer too large for a float, and
  \<^verbatim>\<open>ZeroDivisionError\<close> for a division by zero. The body of a
  \<^verbatim>\<open>with\<close> block is the caller's code and may raise anything:
  \<open>UserException\<close> stands for an exception class derived from \<^verbatim>\<open>Exception\<close>,
  \<open>BaseOnly\<close> for one derived from \<^verbatim>\<open>BaseException\<close> only
  (\<^verbatim>\<open>KeyboardInterrupt\<close>, \<^verbatim>\<open>SystemExit\<close>). The clause
  \<^verbatim>\<open>except Exception\<close> of \<^verbatim>\<open>part\<close> tells the two apart.
\<close>

datatype exn =
    AttributeError string
  | KeyError string
  | TypeError
  | OverflowError string
  | ZeroDivisionError string
  | UserException string
  | BaseOnly string

fun is_Exception :: "exn \<Rightarrow> bool" where
  "is_Exception (BaseOnly _) = False"
| "is_Exception _ = True"

definition quoted :: "string \<Rightarrow> string" where
  "quoted x = CHR 0x27 # x @ [CHR 0x27]"

definition report_apart_message :: string where
  "report_apart_message =
     ''No allowed to change '' @ quoted ''report_apart'' @ '' to a previous '' @ quoted ''partname''"

definition no_part_message :: "string \<Rightarrow> string" where
  "no_part_message part_or_apart =
     ''No existe parte o aparte con el nombre '' @ quoted part_or_apart"

definition section_message :: string where
  "section_message =
     ''Parametro '' @ quoted ''section'' @ '' debe ser '' @ quoted ''parts'' @ '', ''
       @ quoted ''aparts'' @ '' o '' @ quoted ''all'' @ ''.''"

section \<open>The state of a report\<close>

text \<open>
  A dictionary is an association list in insertion order, written with
  \<open>AList.update\<close> (an existing key keeps its place, a new key goes to the end, as in a
  Python \<^verbatim>\<open>dict\<close>) and read with \<open>map_of\<close>. The inner dictionaries are
  \<^verbatim>\<open>defaultdict(None)\<close>: no default factory, so they behave as plain dictionaries.
  Their values are durations or \<^verbatim>\<open>None\<close>, which the code tests for.
\<close>

type_synonym part_dict = "(string \<times> int option) list"
type_synonym bench_dict = "(int \<times> part_dict) list"

text \<open>
  The record holds the attributes of a \<^verbatim>\<open>BenchReport\<close> object, with three fields
  for what lies outside the object:
  \<^item> \<open>ticks\<close>: how many times the injected timer has been read so far. The timer itself
    is a parameter \<open>tm\<close> of every operation that reads it: \<open>tm k\<close> is its \<open>k\<close>-th
    reading, an integer number of nanoseconds as \<^verbatim>\<open>time.perf_counter_ns\<close> returns.
  \<^item> \<open>gc_enabled\<close>: what \<^verbatim>\<open>gc.isenabled()\<close> returns.
  \<^item> \<open>store_id\<close>: the identity of the two dictionary objects
    \<^verbatim>\<open>parts_benches\<close> and \<^verbatim>\<open>apart_benches\<close>. \<^verbatim>\<open>reset\<close> creates new
    ones; a scope that was opened before keeps its references to the old ones.
\<close>

record bench =
  name :: string
  default_turn_gc_off :: bool
  default_repeat :: int
  parts_benches :: bench_dict
  apart_benches :: bench_dict
  loop_benches :: "int list"
  current_iteration :: int
  parts_names :: "string set"
  apart_names :: "string set"
  startlooptime :: "int option"
  lastlooptime :: "int option"
  endlooptime :: "int option"
  totaltime :: "int option"
  totalitertime :: "int option"
  overhead :: "int option"
  ticks :: nat
  gc_enabled :: bool
  store_id :: nat

definition read_timer :: "(nat \<Rightarrow> int) \<Rightarrow> bench \<Rightarrow> int \<times> bench" where
  "read_timer tm s = (tm (ticks s), s\<lparr>ticks := Suc (ticks s)\<rparr>)"

definition reset :: "bench \<Rightarrow> bench" where
  "reset s = s\<lparr>parts_benches := [], apart_benches := [], loop_benches := [],
                current_iteration := 0, parts_names := {}, apart_names := {},
                startlooptime := None, lastlooptime := None, endlooptime := None,
                totaltime := None, totalitertime := None, overhead := None,
                store_id := Suc (store_id s)\<rparr>"

text \<open>
  \<^verbatim>\<open>BenchReport(name, repeat, _timer, turn_gc_off)\<close>, created when the timer has been
  read \<open>k\<close> times and the collector's switch is \<open>g\<close>.
\<close>

definition new_report :: "string \<Rightarrow> int \<Rightarrow> bool \<Rightarrow> nat \<Rightarrow> bool \<Rightarrow> bench" where
  "new_report nm repeat turn_gc_off k g =
     reset \<lparr>name = nm, default_turn_gc_off = turn_gc_off, default_repeat = repeat,
            parts_benches = [], apart_benches = [], loop_benches = [],
            current_iteration = 0, parts_names = {}, apart_names = {},
            startlooptime = None, lastlooptime = None, endlooptime = None,
            totaltime = None, totalitertime = None, overhead = None,
            ticks = k, gc_enabled = g, store_id = 0\<rparr>"

section \<open>The iteration driver\<close>

text \<open>\<^verbatim>\<open>__call__(n)\<close> and \<^verbatim>\<open>__iter__()\<close>.\<close>

definition bench_call :: "(nat \<Rightarrow> int) \<Rightarrow> int option \<Rightarrow> bench \<Rightarrow> bench" where
  "bench_call tm n s =
     (let s1 = (case n of None \<Rightarrow> s | Some k \<Rightarrow> s\<lparr>default_repeat := k\<rparr>);
          s2 = reset s1;
          (t, s3) = read_timer tm s2
      in s3\<lparr>startlooptime := Some t\<rparr>)"

definition bench_iter :: "(nat \<Rightarrow> int) \<Rightarrow> bench \<Rightarrow> bench" where
  "bench_iter tm s =
     (let s1 = s\<lparr>current_iteration := 0\<rparr>;
          (t, s2) = read_timer tm s1
      in s2\<lparr>lastlooptime := Some t\<rparr>)"

text \<open>
  \<^verbatim>\<open>__next__()\<close> returns the next item, raises \<^verbatim>\<open>StopIteration\<close> (the ordinary end
  of the sequence), or fails with \<^verbatim>\<open>TypeError\<close> where it subtracts \<^verbatim>\<open>None\<close>:
  \<^verbatim>\<open>_lastlooptime\<close> is \<^verbatim>\<open>None\<close> until \<^verbatim>\<open>__iter__\<close> has run, and
  \<^verbatim>\<open>_startlooptime\<close> until \<^verbatim>\<open>__call__\<close> has.
\<close>

datatype step = Item int | StopIteration | Failure exn

definition bench_next :: "(nat \<Rightarrow> int) \<Rightarrow> bench \<Rightarrow> step \<times> bench" where
  "bench_next tm s =
     (let (t2, s1) = read_timer tm s in
      case lastlooptime s1 of
        None \<Rightarrow> (Failure TypeError, s1)
      | Some l \<Rightarrow>
          (let delta = t2 - l;
               s2 = (if current_iteration s1 > 0
                     then s1\<lparr>loop_benches := loop_benches s1 @ [delta]\<rparr> else s1);
               s3 = s2\<lparr>lastlooptime := Some t2\<rparr>
           in if current_iteration s3 < default_repeat s3
              then (let s4 = s3\<lparr>current_iteration := current_iteration s3 + 1\<rparr>
                    in (Item (current_iteration s4), s4))
              else (case startlooptime s3 of
                      None \<Rightarrow> (Failure TypeError, s3)
                    | Some st \<Rightarrow>
                        (let s4 = s3\<lparr>totaltime := Some (t2 - st)\<rparr>;
                             s5 = s4\<lparr>totalitertime := Some (sum_list (loop_benches s4))\<rparr>;
                             s6 = s5\<lparr>overhead := Some ((t2 - st) - sum_list (loop_benches s4))\<rparr>
                         in (StopIteration, s6)))))"

text \<open>
  \<^verbatim>\<open>for v in it: body\<close> for an iterator \<open>it\<close> on which \<^verbatim>\<open>__iter__\<close> has been
  called: \<^verbatim>\<open>__next__\<close>, then the body with the item, again and again. The body is
  the caller's code: a function from the item and the state to how it ended
  (\<open>None\<close>: normally, \<open>Some e\<close>: by raising \<open>e\<close>) and the state it left. The loop
  returns the items it was given, how it ended and the last state. A body may assign to
  the counter, so the loop need not end: the first argument bounds the number of calls of
  \<^verbatim>\<open>__next__\<close>, and \<open>None\<close> says the bound was reached.
\<close>

type_synonym body = "bench \<Rightarrow> exn option \<times> bench"

fun for_loop :: "nat \<Rightarrow> (nat \<Rightarrow> int) \<Rightarrow> (int \<Rightarrow> body) \<Rightarrow> bench
                   \<Rightarrow> (int list \<times> exn option \<times> bench) option" where
  "for_loop 0 tm b s = None"
| "for_loop (Suc k) tm b s =
     (case bench_next tm s of
        (StopIteration, s1) \<Rightarrow> Some ([], None, s1)
      | (Failure e, s1) \<Rightarrow> Some ([], Some e, s1)
      | (Item v, s1) \<Rightarrow>
          (case b v s1 of
             (Some e, s2) \<Rightarrow> Some ([v], Some e, s2)
           | (None, s2) \<Rightarrow>
               (case for_loop k tm b s2 of
                  None \<Rightarrow> None
                | Some (vs, r, s3) \<Rightarrow> Some (v # vs, r, s3))))"

text \<open>\<^verbatim>\<open>for v in T(n): body\<close>: \<^verbatim>\<open>__call__\<close>, \<^verbatim>\<open>__iter__\<close>, then the loop.\<close>

definition run_loop :: "nat \<Rightarrow> (nat \<Rightarrow> int) \<Rightarrow> int option \<Rightarrow> (int \<Rightarrow> body) \<Rightarrow> bench
                   \<Rightarrow> (int list \<times> exn option \<times> bench) option" where
  "run_loop fuel tm n b s = for_loop fuel tm b (bench_iter tm (bench_call tm n s))"

text \<open>
  What a loop body has to leave alone for the driver to count as the code intends: the
  driver's own attributes. The timer can only have been read more often.
\<close>

definition driver_frame :: "bench \<Rightarrow> bench \<Rightarrow> bool" where
  "driver_frame s s' \<longleftrightarrow>
     default_repeat s' = default_repeat s \<and> current_iteration s' = current_iteration s \<and>
     loop_benches s' = loop_benches s \<and> lastlooptime s' = lastlooptime s \<and>
     startlooptime s' = startlooptime s \<and> ticks s \<le> ticks s'"

section \<open>Part scopes\<close>

text \<open>
  \<^verbatim>\<open>part\<close> is a generator wrapped by \<^verbatim>\<open>contextmanager\<close>: the code up to
  \<^verbatim>\<open>yield\<close> runs when the \<^verbatim>\<open>with\<close> statement opens the scope, the body of the
  \<^verbatim>\<open>with\<close> block runs next, and the code after \<^verbatim>\<open>yield\<close> runs when the block
  is left. The generator's local variables that live across the \<^verbatim>\<open>yield\<close> are the
  record \<open>scope\<close>; \<open>sc_store\<close> is the identity of the dictionaries that \<^verbatim>\<open>b\<close> and
  \<^verbatim>\<open>b_anti\<close> refer to.
\<close>

record scope =
  gcold :: bool
  sc_partname :: string
  sc_report_apart :: bool
  sc_i :: int
  sc_start_time :: int
  sc_store :: nat

text \<open>The name and the switch after the defaults have been filled in.\<close>

definition resolve_partname :: "string option \<Rightarrow> bool \<Rightarrow> string" where
  "resolve_partname partname report_apart =
     (if report_apart then (case partname of None \<Rightarrow> ''core'' | Some p \<Rightarrow> p)
      else (case partname of None \<Rightarrow> ''setup'' | Some p \<Rightarrow> p))"

definition resolve_turn_gc_off :: "bool option \<Rightarrow> bench \<Rightarrow> bool" where
  "resolve_turn_gc_off turn_gc_off s =
     (case turn_gc_off of None \<Rightarrow> default_turn_gc_off s | Some f \<Rightarrow> f)"

text \<open>The set \<^verbatim>\<open>p\<close> of the names of a reporting class, and its dictionary \<^verbatim>\<open>b\<close>.\<close>

definition names_of :: "bool \<Rightarrow> bench \<Rightarrow> string set" where
  "names_of report_apart s = (if report_apart then apart_names s else parts_names s)"

definition benches_of :: "bool \<Rightarrow> bench \<Rightarrow> bench_dict" where
  "benches_of report_apart s = (if report_apart then apart_benches s else parts_benches s)"

definition add_name :: "bool \<Rightarrow> string \<Rightarrow> bench \<Rightarrow> bench" where
  "add_name report_apart pn s =
     (if report_apart then s\<lparr>apart_names := insert pn (apart_names s)\<rparr>
      else s\<lparr>parts_names := insert pn (parts_names s)\<rparr>)"

text \<open>Lines 144 to 171: from the call of \<^verbatim>\<open>part\<close> to the \<^verbatim>\<open>yield\<close>.\<close>

definition part_enter :: "(nat \<Rightarrow> int) \<Rightarrow> string option \<Rightarrow> bool \<Rightarrow> bool option \<Rightarrow> bench
                            \<Rightarrow> (exn + scope) \<times> bench" where
  "part_enter tm partname report_apart turn_gc_off s =
     (let g = gc_enabled s;
          s1 = (if resolve_turn_gc_off turn_gc_off s then s\<lparr>gc_enabled := False\<rparr> else s);
          pn = resolve_partname partname report_apart
      in if pn \<in> names_of (\<not> report_apart) s1
         then (Inl (AttributeError report_apart_message), s1)
         else (let s2 = add_name report_apart pn s1;
                   i = current_iteration s2;
                   (start, s3) = read_timer tm s2
               in (Inr \<lparr>gcold = g, sc_partname = pn, sc_report_apart = report_apart,
                          sc_i = i, sc_start_time = start, sc_store = store_id s2\<rparr>, s3)))"

text \<open>
  Lines 193 to 203: the elapsed time goes into the dictionary of the scope's class.
  \<open>ensure_iteration\<close> is \<^verbatim>\<open>if i not in b: b[i] = defaultdict(None)\<close>, after which
  \<^verbatim>\<open>b[i]\<close> is there: the branch \<open>None\<close> of \<open>record_delta\<close> is never taken.
  Where \<^verbatim>\<open>reset\<close> has replaced the dictionaries since the scope opened, \<^verbatim>\<open>b\<close>
  and \<^verbatim>\<open>b_anti\<close> are the old objects and the report's own are untouched.
\<close>

definition ensure_iteration :: "int \<Rightarrow> bench_dict \<Rightarrow> bench_dict" where
  "ensure_iteration i b = (if i \<notin> fst ` set b then AList.update i [] b else b)"

definition add_delta :: "string \<Rightarrow> int \<Rightarrow> part_dict \<Rightarrow> part_dict" where
  "add_delta pn delta d =
     (case map_of d pn of
        None \<Rightarrow> AList.update pn (Some delta) d
      | Some None \<Rightarrow> AList.update pn (Some delta) d
      | Some (Some t) \<Rightarrow> AList.update pn (Some (t + delta)) d)"

definition record_delta :: "string \<Rightarrow> int \<Rightarrow> int \<Rightarrow> bench_dict \<Rightarrow> bench_dict" where
  "record_delta pn i delta b =
     (let b1 = ensure_iteration i b
      in case map_of b1 i of
           None \<Rightarrow> b1
         | Some d \<Rightarrow> AList.update i (add_delta pn delta d) b1)"

definition part_commit :: "scope \<Rightarrow> int \<Rightarrow> bench \<Rightarrow> bench" where
  "part_commit sc delta s =
     (if sc_store sc \<noteq> store_id s then s
      else if sc_report_apart sc
      then s\<lparr>apart_benches := record_delta (sc_partname sc) (sc_i sc) delta (apart_benches s),
              parts_benches := ensure_iteration (sc_i sc) (parts_benches s)\<rparr>
      else s\<lparr>parts_benches := record_delta (sc_partname sc) (sc_i sc) delta (parts_benches s),
              apart_benches := ensure_iteration (sc_i sc) (apart_benches s)\<rparr>)"

text \<open>
  Lines 173 to 203: what happens at the \<^verbatim>\<open>yield\<close> once the body has ended. An
  exception of the body is thrown into the generator at the \<^verbatim>\<open>yield\<close>;
  \<^verbatim>\<open>except Exception\<close> handles it only if it is an instance of \<^verbatim>\<open>Exception\<close>,
  and in both cases it leaves the generator and the \<^verbatim>\<open>with\<close> statement as it is.
\<close>

definition restore_gc :: "scope \<Rightarrow> bench \<Rightarrow> bench" where
  "restore_gc sc s = (if gcold sc then s\<lparr>gc_enabled := True\<rparr> else s)"

definition part_exit :: "(nat \<Rightarrow> int) \<Rightarrow> scope \<Rightarrow> exn option \<Rightarrow> bench \<Rightarrow> exn option \<times> bench" where
  "part_exit tm sc r s =
     (case r of
        Some e \<Rightarrow> (if is_Exception e then (Some e, restore_gc sc s) else (Some e, s))
      | None \<Rightarrow>
          (let s1 = restore_gc sc s;
               (end_time, s2) = read_timer tm s1;
               delta = end_time - sc_start_time sc
           in (None, part_commit sc delta s2)))"

text \<open>\<^verbatim>\<open>with T.part(partname, report_apart, turn_gc_off): body\<close>.\<close>

definition part :: "(nat \<Rightarrow> int) \<Rightarrow> string option \<Rightarrow> bool \<Rightarrow> bool option \<Rightarrow> body \<Rightarrow> body" where
  "part tm partname report_apart turn_gc_off b s =
     (case part_enter tm partname report_apart turn_gc_off s of
        (Inl e, s1) \<Rightarrow> (Some e, s1)
      | (Inr sc, s1) \<Rightarrow> (case b s1 of (r, s2) \<Rightarrow> part_exit tm sc r s2))"

text \<open>The sample recorded for a part in an iteration, if there is one.\<close>

definition sample :: "bench_dict \<Rightarrow> int \<Rightarrow> string \<Rightarrow> int option" where
  "sample b i pn =
     (case map_of b i of
        None \<Rightarrow> None
      | Some d \<Rightarrow> (case map_of d pn of None \<Rightarrow> None | Some t \<Rightarrow> t))"

text \<open>
  The statements a \<^verbatim>\<open>with\<close> block or a loop body is made of: \<^verbatim>\<open>pass\<close>,
  \<^verbatim>\<open>raise e\<close>, and one statement after another.
\<close>

definition pass :: body where
  "pass s = (None, s)"

definition raise_exn :: "exn \<Rightarrow> body" where
  "raise_exn e s = (Some e, s)"

definition seq :: "body \<Rightarrow> body \<Rightarrow> body" where
  "seq b1 b2 s = (case b1 s of (Some e, s1) \<Rightarrow> (Some e, s1) | (None, s1) \<Rightarrow> b2 s1)"

section \<open>Reading the samples\<close>

text \<open>
  \<^verbatim>\<open>iter_measures_part\<close> is a generator: nothing of it runs until it is consumed,
  and the \<^verbatim>\<open>KeyError\<close> comes with the first item asked for. The model is the
  consumption of the whole generator in one state: the error, or the list of what it
  yields. \<open>measures_loop\<close> is its loop \<^verbatim>\<open>for i in b\<close> over the keys of \<^verbatim>\<open>b\<close>.
\<close>

fun measures_loop :: "string \<Rightarrow> bench_dict \<Rightarrow> int list \<Rightarrow> int list" where
  "measures_loop pn b [] = []"
| "measures_loop pn b (i # ks) =
     (case map_of b i of
        None \<Rightarrow> measures_loop pn b ks
      | Some d \<Rightarrow>
          (case map_of d pn of
             None \<Rightarrow> measures_loop pn b ks
           | Some None \<Rightarrow> measures_loop pn b ks
           | Some (Some t) \<Rightarrow> t # measures_loop pn b ks))"

definition iter_measures_part :: "string \<Rightarrow> bench \<Rightarrow> exn + int list" where
  "iter_measures_part part_or_apart s =
     (if part_or_apart \<in> parts_names s
      then Inr (measures_loop part_or_apart (parts_benches s) (map fst (parts_benches s)))
      else if part_or_apart \<in> apart_names s
      then Inr (measures_loop part_or_apart (apart_benches s) (map fst (apart_benches s)))
      else Inl (KeyError (no_part_message part_or_apart)))"

text \<open>
  \<^verbatim>\<open>iter_measures_parts_globalized\<close>: one total for each iteration of \<^verbatim>\<open>b1\<close>.
  \<^verbatim>\<open>iter_t + t if iter_t else t\<close> takes \<^verbatim>\<open>t\<close> alone when \<^verbatim>\<open>iter_t\<close> is
  \<^verbatim>\<open>None\<close> or zero.
\<close>

fun sum_parts :: "int option \<Rightarrow> part_dict \<Rightarrow> string list \<Rightarrow> int option" where
  "sum_parts iter_t d [] = iter_t"
| "sum_parts iter_t d (p # ps) =
     (case map_of d p of
        None \<Rightarrow> sum_parts iter_t d ps
      | Some None \<Rightarrow> sum_parts iter_t d ps
      | Some (Some t) \<Rightarrow>
          sum_parts (case iter_t of
                       None \<Rightarrow> Some t
                     | Some a \<Rightarrow> if a \<noteq> 0 then Some (a + t) else Some t) d ps)"

fun globalized_loop :: "bench_dict \<Rightarrow> bench_dict \<Rightarrow> int list \<Rightarrow> int list" where
  "globalized_loop b1 b2 [] = []"
| "globalized_loop b1 b2 (i # ks) =
     (let iter_t1 = (case map_of b1 i of
                       None \<Rightarrow> None
                     | Some d \<Rightarrow> sum_parts None d (map fst d));
          iter_t2 = (case map_of b2 i of
                       None \<Rightarrow> iter_t1
                     | Some d \<Rightarrow> sum_parts iter_t1 d (map fst d))
      in case iter_t2 of
           None \<Rightarrow> globalized_loop b1 b2 ks
         | Some t \<Rightarrow> t # globalized_loop b1 b2 ks)"

definition iter_measures_parts_globalized :: "string \<Rightarrow> bench \<Rightarrow> exn + int list" where
  "iter_measures_parts_globalized sect s =
     (if sect = ''parts''
      then Inr (globalized_loop (parts_benches s) [] (map fst (parts_benches s)))
      else if sect = ''aparts''
      then Inr (globalized_loop (apart_benches s) [] (map fst (apart_benches s)))
      else if sect = ''all''
      then Inr (globalized_loop (parts_benches s) (apart_benches s) (map fst (parts_benches s)))
      else Inl (KeyError section_message))"

section \<open>Binary64 arithmetic\<close>

text \<open>
  \<^verbatim>\<open>_get_stats\<close> computes with Python floats, which are IEEE 754 binary64 numbers.
  Each operation gives the exact result rounded to the nearest number with a significand
  of 53 bits, to the one with an even significand where two are equally near. Below
  \<open>2\<^sup>-\<^sup>1\<^sup>0\<^sup>2\<^sup>2\<close> the spacing stays that of \<open>2\<^sup>-\<^sup>1\<^sup>0\<^sup>2\<^sup>2\<close>; a result that rounds to
  \<open>2\<^sup>1\<^sup>0\<^sup>2\<^sup>4\<close> or more overflows.

  \<open>pow2 k\<close> is \<open>2\<^sup>k\<close> for an integer \<open>k\<close>, \<open>ilog2 x\<close> the exponent \<open>e\<close> with
  \<open>2\<^sup>e \<le> |x| < 2\<^sup>e\<^sup>+\<^sup>1\<close> for \<open>x \<noteq> 0\<close>, and \<open>round64 x\<close> the rounding of a rational
  \<open>x\<close>, before overflow is looked at.
\<close>

definition pow2 :: "int \<Rightarrow> rat" where
  "pow2 k = (if 0 \<le> k then 2 ^ nat k else 1 / 2 ^ nat (- k))"

definition ilog2 :: "rat \<Rightarrow> int" where
  "ilog2 x =
     (if 1 \<le> \<bar>x\<bar> then bitlen \<lfloor>\<bar>x\<bar>\<rfloor> - 1
      else (let b = bitlen \<lfloor>1 / \<bar>x\<bar>\<rfloor>
            in if pow2 (1 - b) \<le> \<bar>x\<bar> then 1 - b else - b))"

definition round_half_even :: "rat \<Rightarrow> int" where
  "round_half_even q =
     (let n = \<lfloor>q\<rfloor>; r = q - of_int n
      in if r < 1 / 2 then n else if 1 / 2 < r then n + 1 else if even n then n else n + 1)"

definition round64 :: "rat \<Rightarrow> rat" where
  "round64 x =
     (if x = 0 then 0
      else (let k = max (ilog2 x) (- 1022) - 52
            in of_int (round_half_even (x / pow2 k)) * pow2 k))"

text \<open>
  A float is a finite number or an infinity. The aggregator cannot make the two other
  kinds of float: a \<^verbatim>\<open>nan\<close> would need the sum of two infinities of opposite sign, and
  an integer is never converted to an infinity; a negative zero would need a negative
  result to underflow to zero, and a result other than zero is at least
  \<open>10\<^sup>-\<^sup>6 / 2\<^sup>1\<^sup>0\<^sup>2\<^sup>4\<close> in magnitude, which is more than the least float above zero.
\<close>

datatype double = Finite rat | PlusInf | MinusInf

text \<open>
  The result of a float operation whose exact result is \<open>x\<close>: an overflow gives an
  infinity and raises nothing.
\<close>

definition ieee :: "rat \<Rightarrow> double" where
  "ieee x =
     (let r = round64 x
      in if 2 ^ 1024 \<le> r then PlusInf else if r \<le> - (2 ^ 1024) then MinusInf else Finite r)"

text \<open>
  The conversion of a Python integer to a float, which every operation on a float and an
  integer starts with: correctly rounded, and an \<^verbatim>\<open>OverflowError\<close> where the result
  would overflow.
\<close>

definition float_of_int :: "int \<Rightarrow> exn + rat" where
  "float_of_int i =
     (let r = round64 (of_int i)
      in if 2 ^ 1024 \<le> \<bar>r\<bar> then Inl (OverflowError ''int too large to convert to float'')
         else Inr r)"

text \<open>\<^verbatim>\<open>x + i\<close> and \<^verbatim>\<open>x / i\<close> for a float \<open>x\<close> and an integer \<open>i\<close>.\<close>

definition float_add_int :: "double \<Rightarrow> int \<Rightarrow> exn + double" where
  "float_add_int a i =
     (case float_of_int i of
        Inl e \<Rightarrow> Inl e
      | Inr y \<Rightarrow>
          Inr (case a of
                 Finite x \<Rightarrow> ieee (x + y)
               | PlusInf \<Rightarrow> PlusInf
               | MinusInf \<Rightarrow> MinusInf))"

definition float_div_int :: "double \<Rightarrow> int \<Rightarrow> exn + double" where
  "float_div_int a i =
     (case float_of_int i of
        Inl e \<Rightarrow> Inl e
      | Inr y \<Rightarrow>
          if y = 0 then Inl (ZeroDivisionError ''float division by zero'')
          else Inr (case a of
                      Finite x \<Rightarrow> ieee (x / y)
                    | PlusInf \<Rightarrow> if 0 < y then PlusInf else MinusInf
                    | MinusInf \<Rightarrow> if 0 < y then MinusInf else PlusInf))"

text \<open>
  \<^verbatim>\<open>a / b\<close> for two integers: the quotient of the integers themselves, correctly
  rounded, and an \<^verbatim>\<open>OverflowError\<close> where it would overflow.
\<close>

definition int_true_div :: "int \<Rightarrow> int \<Rightarrow> exn + double" where
  "int_true_div a b =
     (if b = 0 then Inl (ZeroDivisionError ''division by zero'')
      else (let r = round64 (of_int a / of_int b)
            in if 2 ^ 1024 \<le> \<bar>r\<bar>
               then Inl (OverflowError ''integer division result too large for a float'')
               else Inr (Finite r)))"

section \<open>Statistics\<close>

text \<open>
  \<open>priv_get_stats\<close> is the static method \<^verbatim>\<open>_get_stats\<close>, applied to a sequence of
  integers (nanoseconds) and \<^verbatim>\<open>None\<close>. The dictionary \<^verbatim>\<open>stat\<close> is the record
  \<open>loop_stat\<close> while the loop runs, when \<^verbatim>\<open>stat["min"]\<close> is an integer and
  \<^verbatim>\<open>stat["avg"]\<close> is \<^verbatim>\<open>None\<close>, and the record \<open>stats\<close> when it is returned.
  \<open>add_measure\<close> is the body of the loop for a sample that is not \<^verbatim>\<open>None\<close>.
\<close>

record loop_stat =
  loop_total :: double
  loop_n :: int
  loop_min :: "int option"

record stats =
  stat_total :: double
  stat_n :: int
  stat_avg :: "double option"
  stat_min :: "double option"

definition ns_to_ms :: int where
  "ns_to_ms = 1000000"

definition add_measure :: "loop_stat \<Rightarrow> int \<Rightarrow> exn + loop_stat" where
  "add_measure stat t =
     (case float_add_int (loop_total stat) t of
        Inl e \<Rightarrow> Inl e
      | Inr tot \<Rightarrow>
          (let stat1 = stat\<lparr>loop_total := tot\<rparr>;
               stat2 = stat1\<lparr>loop_n := loop_n stat1 + 1\<rparr>
           in case loop_min stat2 of
                None \<Rightarrow> Inr (stat2\<lparr>loop_min := Some t\<rparr>)
              | Some m \<Rightarrow> if m > t then Inr (stat2\<lparr>loop_min := Some t\<rparr>) else Inr stat2))"

fun add_measures :: "loop_stat \<Rightarrow> int option list \<Rightarrow> exn + loop_stat" where
  "add_measures stat [] = Inr stat"
| "add_measures stat (m # ms) =
     (case m of
        None \<Rightarrow> add_measures stat ms
      | Some t \<Rightarrow>
          (case add_measure stat t of
             Inl e \<Rightarrow> Inl e
           | Inr stat' \<Rightarrow> add_measures stat' ms))"

definition priv_get_stats :: "int option list \<Rightarrow> exn + stats" where
  "priv_get_stats ms =
     (case add_measures \<lparr>loop_total = Finite 0, loop_n = 0, loop_min = None\<rparr> ms of
        Inl e \<Rightarrow> Inl e
      | Inr stat \<Rightarrow>
          (case float_div_int (loop_total stat) ns_to_ms of
             Inl e \<Rightarrow> Inl e
           | Inr tot \<Rightarrow>
               (case (case loop_min stat of
                        None \<Rightarrow> Inr None
                      | Some m \<Rightarrow>
                          (case int_true_div m ns_to_ms of
                             Inl e \<Rightarrow> Inl e
                           | Inr d \<Rightarrow> Inr (Some d))) of
                  Inl e \<Rightarrow> Inl e
                | Inr mn \<Rightarrow>
                    if loop_n stat > 0
                    then (case float_div_int tot (loop_n stat) of
                            Inl e \<Rightarrow> Inl e
                          | Inr a \<Rightarrow>
                              Inr \<lparr>stat_total = tot, stat_n = loop_n stat,
                                   stat_avg = Some a, stat_min = mn\<rparr>)
                    else Inr \<lparr>stat_total = tot, stat_n = loop_n stat,
                              stat_avg = None, stat_min = mn\<rparr>)))"

text \<open>The samples of a sequence that are not \<^verbatim>\<open>None\<close>.\<close>

primrec present :: "int option list \<Rightarrow> int list" where
  "present [] = []"
| "present (m # ms) = (case m of None \<Rightarrow> present ms | Some t \<Rightarrow> t # present ms)"

section \<open>The invariant of the two stores\<close>

definition same_iterations :: "bench \<Rightarrow> bool" where
  "same_iterations s \<longleftrightarrow> fst ` set (parts_benches s) = fst ` set (apart_benches s)"

text \<open>
  An association list is a dictionary when no key occurs twice in it. The stores are
  dictionaries of dictionaries.
\<close>

definition wf_store :: "bench_dict \<Rightarrow> bool" where
  "wf_store b \<longleftrightarrow> distinct (map fst b) \<and> (\<forall>d\<in>snd ` set b. distinct (map fst d))"

section \<open>An example run\<close>

text \<open>
  The second example of the class's docstring, with \<^verbatim>\<open>pass\<close> for the code under
  measurement, and a timer whose \<open>k\<close>-th reading is \<open>5 * k * k\<close> nanoseconds.
\<close>

definition example_timer :: "nat \<Rightarrow> int" where
  "example_timer k = 5 * int k * int k"

definition example_body :: "int \<Rightarrow> body" where
  "example_body v =
     seq (part example_timer (Some ''Setup'') True None pass)
         (part example_timer (Some ''Load'') False None pass)"

definition example_report :: bench where
  "example_report = new_report ''Medicion 1'' 1 True 0 True"

text \<open>The state the example run ends in, and the state in which its first iteration begins.\<close>

definition example_final :: bench where
  "example_final =
     (case run_loop 4 example_timer (Some 3) example_body example_report of
        None \<Rightarrow> example_report
      | Some (vs, r, s) \<Rightarrow> s)"

definition example_iteration :: bench where
  "example_iteration =
     snd (bench_next example_timer
       (bench_iter example_timer (bench_call example_timer (Some 3) example_report)))"

text \<open>The first iteration after its scope \<^verbatim>\<open>Setup\<close> has been closed.\<close>

definition example_setup_done :: bench where
  "example_setup_done = snd (part example_timer (Some ''Setup'') True None pass example_iteration)"

text \<open>A run whose second iteration does not measure \<^verbatim>\<open>Load\<close>.\<close>

definition sparse_body :: "int \<Rightarrow> body" where
  "sparse_body v =
     seq (part example_timer (Some ''Setup'') True None pass)
         (if v = 2 then pass else part example_timer (Some ''Load'') False None pass)"

definition sparse_final :: bench where
  "sparse_final =
     (case run_loop 4 example_timer (Some 3) sparse_body example_report of
        None \<Rightarrow> example_report
      | Some (vs, r, s) \<Rightarrow> s)"

text \<open>A body that closes one scope and then raises, and one with two scopes of one name.\<close>

definition failing_body :: body where
  "failing_body =
     seq (part example_timer (Some ''inner'') False None pass) (raise_exn (UserException ''boom''))"

definition twice_body :: body where
  "twice_body =
     seq (part example_timer (Some ''a'') False None pass)
         (part example_timer (Some ''a'') False None pass)"

section \<open>Properties of the iteration driver\<close>

lemma driver_frame_refl: "driver_frame s s"
  by (simp add: driver_frame_def)

lemma driver_frame_trans: "driver_frame s s1 \<Longrightarrow> driver_frame s1 s2 \<Longrightarrow> driver_frame s s2"
  by (simp add: driver_frame_def)

lemma bench_next_item:
  assumes "lastlooptime s = Some l" and "current_iteration s < default_repeat s"
  shows "\<exists>s1. bench_next tm s = (Item (current_iteration s + 1), s1) \<and>
           current_iteration s1 = current_iteration s + 1 \<and>
           default_repeat s1 = default_repeat s \<and>
           startlooptime s1 = startlooptime s \<and>
           lastlooptime s1 = Some (tm (ticks s)) \<and>
           ticks s1 = Suc (ticks s) \<and>
           loop_benches s1 = (if 0 < current_iteration s
                              then loop_benches s @ [tm (ticks s) - l] else loop_benches s)"
  using assms by (simp add: bench_next_def read_timer_def Let_def)

lemma bench_next_stop:
  assumes "lastlooptime s = Some l" and "startlooptime s = Some st"
    and "\<not> current_iteration s < default_repeat s"
  shows "\<exists>s1. bench_next tm s = (StopIteration, s1) \<and>
           current_iteration s1 = current_iteration s \<and>
           default_repeat s1 = default_repeat s \<and>
           startlooptime s1 = startlooptime s \<and>
           lastlooptime s1 = Some (tm (ticks s)) \<and>
           ticks s1 = Suc (ticks s) \<and>
           loop_benches s1 = (if 0 < current_iteration s
                              then loop_benches s @ [tm (ticks s) - l] else loop_benches s) \<and>
           totaltime s1 = Some (tm (ticks s) - st) \<and>
           totalitertime s1 = Some (sum_list (loop_benches s1)) \<and>
           overhead s1 = Some ((tm (ticks s) - st) - sum_list (loop_benches s1))"
  using assms by (simp add: bench_next_def read_timer_def Let_def)

lemma for_loop_items:
  assumes frame: "\<And>v s. driver_frame s (snd (b v s))"
  shows "lastlooptime s \<noteq> None \<Longrightarrow> startlooptime s \<noteq> None \<Longrightarrow>
         nat (default_repeat s - current_iteration s) < k \<Longrightarrow>
         \<exists>vs r s'. for_loop k tm b s = Some (vs, r, s') \<and>
           (r = None \<longrightarrow> vs = [current_iteration s + 1 .. default_repeat s]) \<and>
           ((\<forall>v s. fst (b v s) = None) \<longrightarrow> r = None)"
proof (induction k arbitrary: s)
  case 0
  then show ?case by simp
next
  case (Suc k)
  from Suc.prems obtain l st where l: "lastlooptime s = Some l" and st: "startlooptime s = Some st"
    by auto
  show ?case
  proof (cases "current_iteration s < default_repeat s")
    case False
    from bench_next_stop[OF l st False, of tm] obtain s1 where "bench_next tm s = (StopIteration, s1)"
      by blast
    with False show ?thesis by simp
  next
    case True
    from bench_next_item[OF l True, of tm] obtain s1 where
      n: "bench_next tm s = (Item (current_iteration s + 1), s1)" and
      f1: "current_iteration s1 = current_iteration s + 1" "default_repeat s1 = default_repeat s"
          "startlooptime s1 = startlooptime s" "lastlooptime s1 = Some (tm (ticks s))"
      by blast
    obtain r s2 where b: "b (current_iteration s + 1) s1 = (r, s2)"
      by (cases "b (current_iteration s + 1) s1")
    from frame[of s1 "current_iteration s + 1"] b have fr: "driver_frame s1 s2" by simp
    show ?thesis
    proof (cases r)
      case (Some e)
      have "fst (b (current_iteration s + 1) s1) \<noteq> None" using b Some by simp
      then have "\<not> (\<forall>v s. fst (b v s) = None)" by metis
      with n b Some show ?thesis by simp
    next
      case None
      have "lastlooptime s2 \<noteq> None" "startlooptime s2 \<noteq> None"
        using fr f1 st by (simp_all add: driver_frame_def)
      moreover have "nat (default_repeat s2 - current_iteration s2) < k"
        using fr f1 True Suc.prems(3) by (simp add: driver_frame_def)
      ultimately obtain vs r' s' where
        ih: "for_loop k tm b s2 = Some (vs, r', s')"
            "r' = None \<longrightarrow> vs = [current_iteration s2 + 1 .. default_repeat s2]"
            "(\<forall>v s. fst (b v s) = None) \<longrightarrow> r' = None"
        using Suc.IH[of s2] by blast
      have eq: "current_iteration s2 = current_iteration s + 1" "default_repeat s2 = default_repeat s"
        using fr f1 by (simp_all add: driver_frame_def)
      have "[current_iteration s + 1 .. default_repeat s]
              = (current_iteration s + 1) # [current_iteration s + 1 + 1 .. default_repeat s]"
        using True by (simp add: upto_rec1)
      with n b None ih eq show ?thesis by simp
    qed
  qed
qed

lemma for_loop_Suc_None:
  assumes "for_loop (Suc k) tm b s = Some (vs, None, s')"
  shows "(\<exists>s1. bench_next tm s = (StopIteration, s1) \<and> vs = [] \<and> s' = s1) \<or>
         (\<exists>v s1 s2 vs'. bench_next tm s = (Item v, s1) \<and> b v s1 = (None, s2) \<and>
             for_loop k tm b s2 = Some (vs', None, s') \<and> vs = v # vs')"
  using assms by (auto split: prod.splits step.splits option.splits)

lemma bench_next_Item_D:
  assumes "bench_next tm s = (Item v, s1)"
  shows "\<exists>l. lastlooptime s = Some l \<and> current_iteration s < default_repeat s \<and>
           v = current_iteration s + 1 \<and>
           current_iteration s1 = current_iteration s + 1 \<and>
           default_repeat s1 = default_repeat s \<and>
           startlooptime s1 = startlooptime s \<and>
           lastlooptime s1 = Some (tm (ticks s)) \<and>
           ticks s1 = Suc (ticks s) \<and>
           loop_benches s1 = (if 0 < current_iteration s
                              then loop_benches s @ [tm (ticks s) - l] else loop_benches s)"
  using assms
  by (auto simp: bench_next_def read_timer_def Let_def split: option.splits if_splits)

lemma bench_next_Stop_D:
  assumes "bench_next tm s = (StopIteration, s1)"
  shows "\<exists>l st. lastlooptime s = Some l \<and> startlooptime s = Some st \<and>
           \<not> current_iteration s < default_repeat s \<and>
           ticks s1 = Suc (ticks s) \<and>
           loop_benches s1 = (if 0 < current_iteration s
                              then loop_benches s @ [tm (ticks s) - l] else loop_benches s) \<and>
           totaltime s1 = Some (tm (ticks s) - st) \<and>
           totalitertime s1 = Some (sum_list (loop_benches s1)) \<and>
           overhead s1 = Some ((tm (ticks s) - st) - sum_list (loop_benches s1))"
  using assms
  by (auto simp: bench_next_def read_timer_def Let_def split: option.splits if_splits)

lemma for_loop_samples:
  assumes frame: "\<And>v s. driver_frame s (snd (b v s))"
  shows "for_loop k tm b s = Some (vs, None, s') \<Longrightarrow> 0 \<le> current_iteration s \<Longrightarrow>
         length (loop_benches s') = length (loop_benches s) +
           (if current_iteration s = 0 then nat (default_repeat s)
            else nat (default_repeat s - current_iteration s) + 1)"
proof (induction k arbitrary: s vs)
  case 0
  then show ?case by simp
next
  case (Suc k)
  from for_loop_Suc_None[OF Suc.prems(1)] show ?case
  proof (elim disjE exE conjE)
    fix s1 assume "bench_next tm s = (StopIteration, s1)" and "s' = s1"
    with bench_next_Stop_D[of tm s s1] Suc.prems(2) show ?thesis by auto
  next
    fix v s1 s2 vs'
    assume n: "bench_next tm s = (Item v, s1)" and b: "b v s1 = (None, s2)"
      and rest: "for_loop k tm b s2 = Some (vs', None, s')"
    from frame[of s1 v] b have fr: "driver_frame s1 s2" by simp
    from bench_next_Item_D[OF n] obtain l where
      f: "current_iteration s < default_repeat s"
         "current_iteration s1 = current_iteration s + 1"
         "default_repeat s1 = default_repeat s"
         "loop_benches s1 = (if 0 < current_iteration s
                              then loop_benches s @ [tm (ticks s) - l] else loop_benches s)"
      by blast
    have c2: "current_iteration s2 = current_iteration s + 1" "default_repeat s2 = default_repeat s"
      "loop_benches s2 = loop_benches s1"
      using fr f by (simp_all add: driver_frame_def)
    have "length (loop_benches s') = length (loop_benches s2) +
           (if current_iteration s2 = 0 then nat (default_repeat s2)
            else nat (default_repeat s2 - current_iteration s2) + 1)"
      using Suc.IH[OF rest] c2 Suc.prems(2) by simp
    with c2 f Suc.prems(2) show ?thesis by (auto simp: nat_diff_distrib)
  qed
qed

lemma for_loop_totals:
  assumes frame: "\<And>v s. driver_frame s (snd (b v s))"
  shows "for_loop k tm b s = Some (vs, None, s') \<Longrightarrow>
         \<exists>st. startlooptime s = Some st \<and>
              totaltime s' = Some (tm (ticks s' - 1) - st) \<and>
              totalitertime s' = Some (sum_list (loop_benches s')) \<and>
              overhead s' = Some ((tm (ticks s' - 1) - st) - sum_list (loop_benches s'))"
proof (induction k arbitrary: s vs)
  case 0
  then show ?case by simp
next
  case (Suc k)
  from for_loop_Suc_None[OF Suc.prems(1)] show ?case
  proof (elim disjE exE conjE)
    fix s1 assume "bench_next tm s = (StopIteration, s1)" and "s' = s1"
    with bench_next_Stop_D[of tm s s1] show ?thesis by auto
  next
    fix v s1 s2 vs'
    assume n: "bench_next tm s = (Item v, s1)" and b: "b v s1 = (None, s2)"
      and rest: "for_loop k tm b s2 = Some (vs', None, s')"
    from frame[of s1 v] b have fr: "driver_frame s1 s2" by simp
    from bench_next_Item_D[OF n] have "startlooptime s1 = startlooptime s" by blast
    with fr have "startlooptime s2 = startlooptime s" by (simp add: driver_frame_def)
    with Suc.IH[OF rest] show ?thesis by simp
  qed
qed

lemma for_loop_monotonic:
  assumes frame: "\<And>v s. driver_frame s (snd (b v s))" and mono: "mono tm"
  shows "for_loop k tm b s = Some (vs, None, s') \<Longrightarrow>
         lastlooptime s = Some l \<Longrightarrow> startlooptime s = Some st \<Longrightarrow>
         st + sum_list (loop_benches s) \<le> l \<Longrightarrow> (\<forall>j\<ge>ticks s. l \<le> tm j) \<Longrightarrow>
         st + sum_list (loop_benches s') \<le> tm (ticks s' - 1)"
proof (induction k arbitrary: s vs l)
  case 0
  then show ?case by simp
next
  case (Suc k)
  have now: "l \<le> tm (ticks s)" using Suc.prems(5) by simp
  from for_loop_Suc_None[OF Suc.prems(1)] show ?case
  proof (elim disjE exE conjE)
    fix s1 assume "bench_next tm s = (StopIteration, s1)" and "s' = s1"
    with bench_next_Stop_D[of tm s s1] Suc.prems(2,3,4) now show ?thesis by auto
  next
    fix v s1 s2 vs'
    assume n: "bench_next tm s = (Item v, s1)" and b: "b v s1 = (None, s2)"
      and rest: "for_loop k tm b s2 = Some (vs', None, s')"
    from frame[of s1 v] b have fr: "driver_frame s1 s2" by simp
    from bench_next_Item_D[OF n] Suc.prems(2) have
      f: "startlooptime s1 = startlooptime s"
         "lastlooptime s1 = Some (tm (ticks s))"
         "ticks s1 = Suc (ticks s)"
         "loop_benches s1 = (if 0 < current_iteration s
                              then loop_benches s @ [tm (ticks s) - l] else loop_benches s)"
      by auto
    have l2: "lastlooptime s2 = Some (tm (ticks s))" and st2: "startlooptime s2 = Some st"
      and lb2: "loop_benches s2 = loop_benches s1" and t2: "ticks s \<le> ticks s2"
      using fr f Suc.prems(3) by (simp_all add: driver_frame_def)
    have sum2: "st + sum_list (loop_benches s2) \<le> tm (ticks s)"
      using lb2 f(4) Suc.prems(4) now by auto
    have fut: "\<forall>j\<ge>ticks s2. tm (ticks s) \<le> tm j"
      using t2 mono by (auto simp: mono_def)
    from Suc.IH[OF rest l2 st2 sum2 fut] show ?thesis .
  qed
qed

lemma read_timer_frame: "driver_frame s (snd (read_timer tm s))"
  by (simp add: read_timer_def driver_frame_def)

lemma part_enter_frame: "driver_frame s (snd (part_enter tm pn ra g s))"
  by (simp add: part_enter_def add_name_def read_timer_def driver_frame_def Let_def)

lemma part_commit_frame: "driver_frame s (part_commit sc d s)"
  by (simp add: part_commit_def driver_frame_def)

lemma part_exit_frame: "driver_frame s (snd (part_exit tm sc r s))"
  by (simp add: part_exit_def part_commit_def restore_gc_def read_timer_def driver_frame_def
      Let_def split: option.splits)

lemma part_frame:
  assumes "\<And>s. driver_frame s (snd (b s))"
  shows "driver_frame s (snd (part tm pn ra g b s))"
proof (cases "part_enter tm pn ra g s")
  case (Pair x s1)
  have f1: "driver_frame s s1" using part_enter_frame[of s tm pn ra g] Pair by simp
  show ?thesis
  proof (cases x)
    case (Inl e)
    with Pair f1 show ?thesis by (simp add: part_def)
  next
    case (Inr sc)
    obtain r s2 where b: "b s1 = (r, s2)" by (cases "b s1")
    have f2: "driver_frame s1 s2" using assms[of s1] b by simp
    have f3: "driver_frame s2 (snd (part_exit tm sc r s2))" by (rule part_exit_frame)
    from Pair Inr b have "part tm pn ra g b s = part_exit tm sc r s2" by (simp add: part_def)
    with f1 f2 f3 show ?thesis by (auto intro: driver_frame_trans)
  qed
qed

lemma pass_frame: "driver_frame s (snd (pass s))"
  by (simp add: pass_def driver_frame_refl)

lemma raise_exn_frame: "driver_frame s (snd (raise_exn e s))"
  by (simp add: raise_exn_def driver_frame_refl)

lemma seq_frame:
  assumes "\<And>s. driver_frame s (snd (b1 s))" and "\<And>s. driver_frame s (snd (b2 s))"
  shows "driver_frame s (snd (seq b1 b2 s))"
proof (cases "b1 s")
  case (Pair r s1)
  have f1: "driver_frame s s1" using assms(1)[of s] Pair by simp
  show ?thesis
  proof (cases r)
    case None
    with Pair have "seq b1 b2 s = b2 s1" by (simp add: seq_def)
    with f1 assms(2)[of s1] show ?thesis by (auto intro: driver_frame_trans)
  next
    case (Some e)
    with Pair f1 show ?thesis by (simp add: seq_def)
  qed
qed

lemma example_body_frame: "driver_frame s (snd (example_body v s))"
  unfolding example_body_def by (intro seq_frame part_frame pass_frame)

lemma run_loop_ready:
  "lastlooptime (bench_iter tm (bench_call tm n s)) = Some (tm (Suc (ticks s)))"
  "startlooptime (bench_iter tm (bench_call tm n s)) = Some (tm (ticks s))"
  "current_iteration (bench_iter tm (bench_call tm n s)) = 0"
  "loop_benches (bench_iter tm (bench_call tm n s)) = []"
  "ticks (bench_iter tm (bench_call tm n s)) = Suc (Suc (ticks s))"
  "default_repeat (bench_iter tm (bench_call tm n s)) = (case n of None \<Rightarrow> default_repeat s | Some k \<Rightarrow> k)"
  by (simp_all add: bench_iter_def bench_call_def reset_def read_timer_def Let_def split: option.splits)

text \<open>
  With as many calls of \<^verbatim>\<open>__next__\<close> as the repeat count and one more, the loop ends,
  whatever the body does within the frame.
\<close>

lemma run_loop_completes:
  assumes "\<And>v s. driver_frame s (snd (b v s))"
  shows "\<exists>vs r s'.
           run_loop (Suc (nat (case n of None \<Rightarrow> default_repeat s | Some k \<Rightarrow> k))) tm n b s
             = Some (vs, r, s') \<and>
           (r = None \<longrightarrow> vs = [1..(case n of None \<Rightarrow> default_repeat s | Some k \<Rightarrow> k)]) \<and>
           ((\<forall>v s. fst (b v s) = None) \<longrightarrow> r = None)"
proof -
  let ?N = "case n of None \<Rightarrow> default_repeat s | Some k \<Rightarrow> k"
  let ?s0 = "bench_iter tm (bench_call tm n s)"
  have "\<exists>vs r s'. for_loop (Suc (nat ?N)) tm b ?s0 = Some (vs, r, s') \<and>
           (r = None \<longrightarrow> vs = [current_iteration ?s0 + 1 .. default_repeat ?s0]) \<and>
           ((\<forall>v s. fst (b v s) = None) \<longrightarrow> r = None)"
    by (rule for_loop_items[where b = b, OF assms]) (simp_all add: run_loop_ready)
  then show ?thesis by (simp add: run_loop_def run_loop_ready)
qed

text \<open>
  Claim C6. Let the loop body leave the driver's attributes alone. Then
  \<^verbatim>\<open>for v in T(N): body\<close> ends within \<open>N + 1\<close> calls of \<^verbatim>\<open>__next__\<close> (one call
  for \<open>N = 0\<close>); if no exception ended it, the items were exactly \<open>1, 2, ..., N\<close> in
  this order (none for \<open>N = 0\<close>) and the end was \<^verbatim>\<open>StopIteration\<close>; and it is not
  ended by an exception unless the body raises one.
\<close>

theorem iteration_yields_1_to_N:
  assumes "\<And>v s. driver_frame s (snd (b v s))"
  shows "\<exists>vs r s'. run_loop (Suc (nat N)) tm (Some N) b s = Some (vs, r, s') \<and>
           (r = None \<longrightarrow> vs = [1..N] \<and> length vs = nat N) \<and>
           ((\<forall>v s. fst (b v s) = None) \<longrightarrow> r = None)"
  using run_loop_completes[where b = b and n = "Some N" and s = s and tm = tm, OF assms] by auto

text \<open>The example run with three iterations, and with none.\<close>

theorem iteration_yields_1_to_N_witness:
  "(\<forall>v s. driver_frame s (snd (example_body v s))) \<and>
   map_option fst (run_loop (Suc (nat 3)) example_timer (Some 3) example_body example_report)
     = Some [1, 2, 3] \<and>
   map_option (fst \<circ> snd) (run_loop (Suc (nat 3)) example_timer (Some 3) example_body example_report)
     = Some None \<and>
   map_option fst (run_loop (Suc (nat 0)) example_timer (Some 0) example_body example_report)
     = Some [] \<and>
   map_option (fst \<circ> snd) (run_loop (Suc (nat 0)) example_timer (Some 0) example_body example_report)
     = Some None"
proof -
  have frame: "\<And>v s. driver_frame s (snd (example_body v s))" by (rule example_body_frame)
  have ended: "map_option (fst \<circ> snd)
        (run_loop (Suc (nat 3)) example_timer (Some 3) example_body example_report) = Some None"
    by code_simp
  have ended0: "map_option (fst \<circ> snd)
        (run_loop (Suc (nat 0)) example_timer (Some 0) example_body example_report) = Some None"
    by code_simp
  from iteration_yields_1_to_N[of example_body 0 example_timer example_report, OF frame]
  obtain vs0 r0 s0 where
    run0: "run_loop (Suc (nat 0)) example_timer (Some 0) example_body example_report
             = Some (vs0, r0, s0)"
    and items0: "r0 = None \<longrightarrow> vs0 = [1..0] \<and> length vs0 = nat 0"
    by blast
  from run0 ended0 have "r0 = None" by simp
  with items0 have "vs0 = []" by simp
  with run0 have none: "map_option fst
        (run_loop (Suc (nat 0)) example_timer (Some 0) example_body example_report) = Some []"
    by simp
  from iteration_yields_1_to_N[of example_body 3 example_timer example_report, OF frame]
  obtain vs r s' where
    run: "run_loop (Suc (nat 3)) example_timer (Some 3) example_body example_report = Some (vs, r, s')"
    and items: "r = None \<longrightarrow> vs = [1..3] \<and> length vs = nat 3"
    by blast
  from run ended have "r = None" by simp
  with items have "vs = [1..3]" by simp
  then have "vs = [1, 2, 3]" by (simp add: upto_rec1)
  with run ended ended0 none frame show ?thesis by simp
qed

lemma bench_next_first:
  "current_iteration s = 0 \<Longrightarrow> loop_benches (snd (bench_next tm s)) = loop_benches s"
  by (simp add: bench_next_def read_timer_def Let_def split: option.splits)

text \<open>
  Claim C1, as amended. Let the loop body leave the driver's attributes alone. The loop
  over \<^verbatim>\<open>T(N)\<close> ends within \<open>N + 1\<close> calls of \<^verbatim>\<open>__next__\<close>, by
  \<^verbatim>\<open>StopIteration\<close> unless the body raises. After a loop that no exception ended
  \<^verbatim>\<open>loop_benches\<close> holds \<open>N\<close> samples for \<open>N \<ge> 0\<close> (none for a negative \<open>N\<close>): every
  call of \<^verbatim>\<open>__next__\<close> but the first appends one, the call that ends the sequence
  included. The first call appends nothing.
\<close>

theorem loop_benches_count:
  assumes "\<And>v s. driver_frame s (snd (b v s))"
  shows "(\<exists>vs r s'. run_loop (Suc (nat N)) tm (Some N) b s = Some (vs, r, s') \<and>
            ((\<forall>v s. fst (b v s) = None) \<longrightarrow> r = None)) \<and>
         (\<forall>fuel vs s'. run_loop fuel tm (Some N) b s = Some (vs, None, s') \<longrightarrow>
            length (loop_benches s') = nat N) \<and>
         loop_benches (snd (bench_next tm (bench_iter tm (bench_call tm (Some N) s)))) = []"
proof (intro conjI allI impI)
  show "\<exists>vs r s'. run_loop (Suc (nat N)) tm (Some N) b s = Some (vs, r, s') \<and>
            ((\<forall>v s. fst (b v s) = None) \<longrightarrow> r = None)"
    using run_loop_completes[where b = b and n = "Some N" and s = s and tm = tm, OF assms] by auto
next
  let ?s0 = "bench_iter tm (bench_call tm (Some N) s)"
  fix fuel vs s'
  assume "run_loop fuel tm (Some N) b s = Some (vs, None, s')"
  then have run: "for_loop fuel tm b ?s0 = Some (vs, None, s')"
    by (simp add: run_loop_def)
  have "length (loop_benches s') = length (loop_benches ?s0) +
           (if current_iteration ?s0 = 0 then nat (default_repeat ?s0)
            else nat (default_repeat ?s0 - current_iteration ?s0) + 1)"
    by (rule for_loop_samples[where b = b, OF assms run]) (simp add: run_loop_ready)
  then show "length (loop_benches s') = nat N" by (simp add: run_loop_ready)
next
  show "loop_benches (snd (bench_next tm (bench_iter tm (bench_call tm (Some N) s)))) = []"
    by (simp add: bench_next_first run_loop_ready)
qed

text \<open>The example run with five iterations.\<close>

theorem loop_benches_count_witness:
  "(\<forall>v s. driver_frame s (snd (example_body v s))) \<and>
   map_option (fst \<circ> snd) (run_loop 6 example_timer (Some 5) example_body example_report)
     = Some None \<and>
   map_option (length \<circ> loop_benches \<circ> snd \<circ> snd)
     (run_loop 6 example_timer (Some 5) example_body example_report) = Some (nat 5) \<and>
   loop_benches (snd (bench_next example_timer
     (bench_iter example_timer (bench_call example_timer (Some 5) example_report)))) = []"
proof -
  have frame: "\<And>v s. driver_frame s (snd (example_body v s))" by (rule example_body_frame)
  have ended: "map_option (fst \<circ> snd)
        (run_loop 6 example_timer (Some 5) example_body example_report) = Some None"
    by code_simp
  then obtain vs s' where
    run: "run_loop 6 example_timer (Some 5) example_body example_report = Some (vs, None, s')"
    by auto
  note count = loop_benches_count[where b = example_body and N = 5 and tm = example_timer
      and s = example_report, OF frame]
  from count run have "length (loop_benches s') = nat 5" by blast
  moreover from count have "loop_benches (snd (bench_next example_timer
     (bench_iter example_timer (bench_call example_timer (Some 5) example_report)))) = []"
    by blast
  ultimately show ?thesis using run ended frame by simp
qed

text \<open>
  The claim as the specification has it, \<open>max (N - 1) 0\<close> samples, fails: one iteration
  leaves one sample, five leave five.
\<close>

theorem loop_benches_count_counterexample:
  "map_option (fst \<circ> snd) (run_loop 2 example_timer (Some 1) example_body example_report)
     = Some None \<and>
   map_option (length \<circ> loop_benches \<circ> snd \<circ> snd)
     (run_loop 2 example_timer (Some 1) example_body example_report) = Some 1 \<and>
   nat (max (1 - 1) 0) = 0 \<and>
   map_option (fst \<circ> snd) (run_loop 6 example_timer (Some 5) example_body example_report)
     = Some None \<and>
   map_option (length \<circ> loop_benches \<circ> snd \<circ> snd)
     (run_loop 6 example_timer (Some 5) example_body example_report) = Some 5 \<and>
   nat (max (5 - 1) 0) = 4"
  by code_simp

lemma example_timer_mono: "mono example_timer"
  by (auto simp: mono_def example_timer_def intro!: mult_mono)

text \<open>
  Claim C5. Let the loop body leave the driver's attributes alone. The loop ends within
  as many calls of \<^verbatim>\<open>__next__\<close> as the repeat count and one more, by
  \<^verbatim>\<open>StopIteration\<close> unless the body raises. After a loop that no exception ended,
  \<^verbatim>\<open>totaltime\<close> is the last reading
  of the timer (the one of the call of \<^verbatim>\<open>__next__\<close> that ended the sequence) minus the
  reading \<^verbatim>\<open>__call__\<close> took, \<^verbatim>\<open>totalitertime\<close> is the sum of
  \<^verbatim>\<open>loop_benches\<close>, \<^verbatim>\<open>overhead\<close> is their difference, and with a timer that never
  runs backwards \<^verbatim>\<open>totalitertime\<close> is at most \<^verbatim>\<open>totaltime\<close>.
\<close>

theorem overhead_is_total_minus_iterations:
  assumes "\<And>v s. driver_frame s (snd (b v s))"
  shows "(\<exists>vs r s'.
            run_loop (Suc (nat (case n of None \<Rightarrow> default_repeat s | Some k \<Rightarrow> k))) tm n b s
              = Some (vs, r, s') \<and>
            ((\<forall>v s. fst (b v s) = None) \<longrightarrow> r = None)) \<and>
         (\<forall>fuel vs s'. run_loop fuel tm n b s = Some (vs, None, s') \<longrightarrow>
            totaltime s' = Some (tm (ticks s' - 1) - tm (ticks s)) \<and>
            totalitertime s' = Some (sum_list (loop_benches s')) \<and>
            overhead s' = Some ((tm (ticks s' - 1) - tm (ticks s)) - sum_list (loop_benches s')) \<and>
            (mono tm \<longrightarrow> sum_list (loop_benches s') \<le> tm (ticks s' - 1) - tm (ticks s)))"
proof (intro conjI allI impI)
  show "\<exists>vs r s'.
            run_loop (Suc (nat (case n of None \<Rightarrow> default_repeat s | Some k \<Rightarrow> k))) tm n b s
              = Some (vs, r, s') \<and>
            ((\<forall>v s. fst (b v s) = None) \<longrightarrow> r = None)"
    using run_loop_completes[where b = b and n = n and s = s and tm = tm, OF assms] by auto
next
  let ?s0 = "bench_iter tm (bench_call tm n s)"
  fix fuel vs s'
  assume "run_loop fuel tm n b s = Some (vs, None, s')"
  then have run: "for_loop fuel tm b ?s0 = Some (vs, None, s')"
    by (simp add: run_loop_def)
  from for_loop_totals[where b = b, OF assms run] run_loop_ready(2)[of tm n s]
  show "totaltime s' = Some (tm (ticks s' - 1) - tm (ticks s))"
    and "totalitertime s' = Some (sum_list (loop_benches s'))"
    and "overhead s' = Some ((tm (ticks s' - 1) - tm (ticks s)) - sum_list (loop_benches s'))"
    by auto
  assume m: "mono tm"
  have a: "tm (ticks s) + sum_list (loop_benches ?s0) \<le> tm (Suc (ticks s))"
    using m by (simp add: run_loop_ready mono_def)
  have f: "\<forall>j\<ge>ticks ?s0. tm (Suc (ticks s)) \<le> tm j"
    using m by (simp add: run_loop_ready mono_def)
  from for_loop_monotonic[where b = b, OF assms m run run_loop_ready(1) run_loop_ready(2) a f]
  show "sum_list (loop_benches s') \<le> tm (ticks s' - 1) - tm (ticks s)" by simp
qed

text \<open>The example run with three iterations: 18 readings of the timer.\<close>

theorem overhead_is_total_minus_iterations_witness:
  "(\<forall>v s. driver_frame s (snd (example_body v s))) \<and> mono example_timer \<and>
   map_option (fst \<circ> snd) (run_loop 4 example_timer (Some 3) example_body example_report)
     = Some None \<and>
   map_option (totaltime \<circ> snd \<circ> snd)
     (run_loop 4 example_timer (Some 3) example_body example_report) = Some (Some 1445) \<and>
   map_option (totalitertime \<circ> snd \<circ> snd)
     (run_loop 4 example_timer (Some 3) example_body example_report) = Some (Some 1425) \<and>
   map_option (overhead \<circ> snd \<circ> snd)
     (run_loop 4 example_timer (Some 3) example_body example_report) = Some (Some (1445 - 1425)) \<and>
   (1425 :: int) \<le> 1445"
proof -
  have frame: "\<And>v s. driver_frame s (snd (example_body v s))" by (rule example_body_frame)
  have ended: "map_option (fst \<circ> snd)
        (run_loop 4 example_timer (Some 3) example_body example_report) = Some None"
    by code_simp
  have reads: "map_option (ticks \<circ> snd \<circ> snd)
        (run_loop 4 example_timer (Some 3) example_body example_report) = Some 18"
    by code_simp
  have samples: "map_option (loop_benches \<circ> snd \<circ> snd)
        (run_loop 4 example_timer (Some 3) example_body example_report) = Some [225, 475, 725]"
    by code_simp
  from ended obtain vs s' where
    run: "run_loop 4 example_timer (Some 3) example_body example_report = Some (vs, None, s')"
    by auto
  have t: "ticks s' = 18" and lb: "loop_benches s' = [225, 475, 725]"
    using run reads samples by simp_all
  have t0: "ticks example_report = 0" by (simp add: example_report_def new_report_def reset_def)
  note totals = overhead_is_total_minus_iterations[where b = example_body
      and n = "Some 3" and s = example_report and tm = example_timer, OF frame]
  from totals run have
    "totaltime s' = Some (example_timer (ticks s' - 1) - example_timer (ticks example_report))"
    "totalitertime s' = Some (sum_list (loop_benches s'))"
    "overhead s' = Some ((example_timer (ticks s' - 1) - example_timer (ticks example_report))
                          - sum_list (loop_benches s'))"
    by blast+
  with t lb t0
  have "totaltime s' = Some 1445" "totalitertime s' = Some 1425" "overhead s' = Some 20"
    by (simp_all add: example_timer_def)
  with run ended frame example_timer_mono show ?thesis by simp
qed

section \<open>Properties of part scopes, samples and statistics\<close>

lemma part_enter_error:
  assumes "resolve_partname partname report_apart \<in> names_of (\<not> report_apart) s"
  shows "part_enter tm partname report_apart turn_gc_off s =
           (Inl (AttributeError report_apart_message),
            s\<lparr>gc_enabled := gc_enabled s \<and> \<not> resolve_turn_gc_off turn_gc_off s\<rparr>)"
  using assms
  by (cases report_apart; cases "resolve_turn_gc_off turn_gc_off s")
     (simp_all add: part_enter_def names_of_def Let_def)

lemma part_enter_ok:
  assumes "resolve_partname partname report_apart \<notin> names_of (\<not> report_apart) s"
  shows "part_enter tm partname report_apart turn_gc_off s =
           (Inr \<lparr>gcold = gc_enabled s, sc_partname = resolve_partname partname report_apart,
                  sc_report_apart = report_apart, sc_i = current_iteration s,
                  sc_start_time = tm (ticks s), sc_store = store_id s\<rparr>,
            (add_name report_apart (resolve_partname partname report_apart) s)
              \<lparr>gc_enabled := gc_enabled s \<and> \<not> resolve_turn_gc_off turn_gc_off s,
               ticks := Suc (ticks s)\<rparr>)"
  using assms
  by (cases report_apart; cases "resolve_turn_gc_off turn_gc_off s")
     (simp_all add: part_enter_def names_of_def add_name_def read_timer_def Let_def)

lemma part_enter_Inr_D:
  assumes "part_enter tm partname report_apart turn_gc_off s = (Inr sc, s1)"
  shows "resolve_partname partname report_apart \<notin> names_of (\<not> report_apart) s \<and>
         gcold sc = gc_enabled s \<and> sc_partname sc = resolve_partname partname report_apart \<and>
         sc_report_apart sc = report_apart \<and> sc_i sc = current_iteration s \<and>
         sc_start_time sc = tm (ticks s) \<and> sc_store sc = store_id s \<and>
         names_of report_apart s1 = insert (resolve_partname partname report_apart) (names_of report_apart s) \<and>
         names_of (\<not> report_apart) s1 = names_of (\<not> report_apart) s \<and>
         parts_benches s1 = parts_benches s \<and> apart_benches s1 = apart_benches s \<and>
         store_id s1 = store_id s \<and> ticks s1 = Suc (ticks s) \<and>
         gc_enabled s1 = (gc_enabled s \<and> \<not> resolve_turn_gc_off turn_gc_off s)"
proof (cases "resolve_partname partname report_apart \<in> names_of (\<not> report_apart) s")
  case True
  from part_enter_error[OF True, of tm turn_gc_off] assms show ?thesis by simp
next
  case False
  from part_enter_ok[OF False, of tm turn_gc_off] assms have
    "sc = \<lparr>gcold = gc_enabled s, sc_partname = resolve_partname partname report_apart,
                  sc_report_apart = report_apart, sc_i = current_iteration s,
                  sc_start_time = tm (ticks s), sc_store = store_id s\<rparr>"
    "s1 = (add_name report_apart (resolve_partname partname report_apart) s)
              \<lparr>gc_enabled := gc_enabled s \<and> \<not> resolve_turn_gc_off turn_gc_off s,
               ticks := Suc (ticks s)\<rparr>"
    by simp_all
  with False show ?thesis by (simp add: names_of_def add_name_def)
qed

text \<open>
  A scope whose body raises an exception passes the same exception on and commits nothing:
  both stores are as the body left them. Where the exception is an instance of
  \<^verbatim>\<open>Exception\<close>, the state is the one the body left but for the collector, which is
  switched on again if it was on when the scope was opened. Any other exception leaves the
  state as the body left it, the collector included.
\<close>

lemma part_body_exception:
  assumes "part_enter tm partname report_apart turn_gc_off s = (Inr sc, s1)"
    and "b s1 = (Some e, s2)"
  shows "fst (part tm partname report_apart turn_gc_off b s) = Some e \<and>
         parts_benches (snd (part tm partname report_apart turn_gc_off b s)) = parts_benches s2 \<and>
         apart_benches (snd (part tm partname report_apart turn_gc_off b s)) = apart_benches s2 \<and>
         (is_Exception e \<longrightarrow>
            part tm partname report_apart turn_gc_off b s
              = (Some e, s2\<lparr>gc_enabled := gc_enabled s \<or> gc_enabled s2\<rparr>)) \<and>
         (is_Exception e \<longrightarrow> gc_enabled s2 = gc_enabled s1 \<longrightarrow>
            gc_enabled (snd (part tm partname report_apart turn_gc_off b s)) = gc_enabled s) \<and>
         (\<not> is_Exception e \<longrightarrow> part tm partname report_apart turn_gc_off b s = (Some e, s2))"
proof -
  have g: "gcold sc = gc_enabled s"
    "gc_enabled s1 = (gc_enabled s \<and> \<not> resolve_turn_gc_off turn_gc_off s)"
    using part_enter_Inr_D[OF assms(1)] by simp_all
  have "part tm partname report_apart turn_gc_off b s = part_exit tm sc (Some e) s2"
    using assms by (simp add: part_def)
  with g show ?thesis by (cases "gc_enabled s") (auto simp: part_exit_def restore_gc_def)
qed

text \<open>
  A scope \<^verbatim>\<open>a\<close> whose body closes a scope \<^verbatim>\<open>inner\<close> and then raises.
\<close>

lemma part_body_exception_example:
  "fst (part example_timer (Some ''a'') False None failing_body example_report)
     = Some (UserException ''boom'') \<and>
   sample (parts_benches (snd (part example_timer (Some ''a'') False None failing_body
      example_report))) 0 ''a'' = None \<and>
   gc_enabled (snd (part example_timer (Some ''a'') False None failing_body example_report))
     = gc_enabled example_report"
proof -
  let ?enter = "part_enter example_timer (Some ''a'') False None example_report"
  let ?s1 = "snd ?enter"
  let ?s2 = "snd (failing_body ?s1)"
  have opened: "?enter = (Inr (projr (fst ?enter)), ?s1)" by code_simp
  have raised: "failing_body ?s1 = (Some (UserException ''boom''), ?s2)" by code_simp
  have exc: "is_Exception (UserException ''boom'')" by simp
  have gc: "gc_enabled ?s2 = gc_enabled ?s1" by code_simp
  have none: "sample (parts_benches ?s2) 0 ''a'' = None" by code_simp
  note scope = part_body_exception[where b = failing_body, OF opened raised]
  from scope have propagated:
    "fst (part example_timer (Some ''a'') False None failing_body example_report)
       = Some (UserException ''boom'')"
    by blast
  from scope have "parts_benches (snd (part example_timer (Some ''a'') False None failing_body
      example_report)) = parts_benches ?s2"
    by blast
  with none have uncommitted:
    "sample (parts_benches (snd (part example_timer (Some ''a'') False None failing_body
      example_report))) 0 ''a'' = None"
    by (simp only:)
  from scope exc gc have restored:
    "gc_enabled (snd (part example_timer (Some ''a'') False None failing_body example_report))
       = gc_enabled example_report"
    by blast
  from propagated uncommitted restored show ?thesis by (intro conjI)
qed

text \<open>
  Claim C2. A scope whose body raises is to leave the stores alone, pass the exception on
  unchanged and put the collector back as it was. The code does so for an instance of
  \<^verbatim>\<open>Exception\<close>. For \<^verbatim>\<open>KeyboardInterrupt\<close>, which \<^verbatim>\<open>except Exception\<close>
  does not handle, it leaves the stores alone and passes the exception on, and leaves the
  collector off, which was on when the scope was opened.
\<close>

theorem part_keyboard_interrupt_leaves_gc_off:
  "gc_enabled example_report \<and>
   fst (part example_timer (Some ''a'') False None (raise_exn (UserException ''boom''))
      example_report) = Some (UserException ''boom'') \<and>
   gc_enabled (snd (part example_timer (Some ''a'') False None
      (raise_exn (UserException ''boom'')) example_report)) \<and>
   fst (part example_timer (Some ''a'') False None (raise_exn (BaseOnly ''KeyboardInterrupt''))
      example_report) = Some (BaseOnly ''KeyboardInterrupt'') \<and>
   parts_benches (snd (part example_timer (Some ''a'') False None
      (raise_exn (BaseOnly ''KeyboardInterrupt'')) example_report)) = parts_benches example_report \<and>
   apart_benches (snd (part example_timer (Some ''a'') False None
      (raise_exn (BaseOnly ''KeyboardInterrupt'')) example_report)) = apart_benches example_report \<and>
   \<not> gc_enabled (snd (part example_timer (Some ''a'') False None
      (raise_exn (BaseOnly ''KeyboardInterrupt'')) example_report))"
  by code_simp

text \<open>
  Within a run the names stay registered: only \<^verbatim>\<open>reset\<close> empties the two sets, and
  \<^verbatim>\<open>__iter__\<close>, \<^verbatim>\<open>__next__\<close>, scopes and loops whose bodies keep the names keep
  them.
\<close>

lemma names_kept_by_iter: "names_of c (bench_iter tm s) = names_of c s"
  by (simp add: bench_iter_def read_timer_def names_of_def Let_def)

lemma names_kept_by_next: "names_of c (snd (bench_next tm s)) = names_of c s"
  by (simp add: bench_next_def read_timer_def names_of_def Let_def split: option.splits)

lemma names_kept_by_exit: "names_of c (snd (part_exit tm sc r s)) = names_of c s"
  by (simp add: part_exit_def part_commit_def restore_gc_def read_timer_def names_of_def Let_def
      split: option.splits)

lemma names_grow_in_part:
  assumes "\<And>s. names_of c s \<subseteq> names_of c (snd (b s))"
  shows "names_of c s \<subseteq> names_of c (snd (part tm partname report_apart turn_gc_off b s))"
proof (cases "resolve_partname partname report_apart \<in> names_of (\<not> report_apart) s")
  case True
  from part_enter_error[OF True, of tm turn_gc_off] show ?thesis
    by (simp add: part_def names_of_def)
next
  case False
  let ?sc = "\<lparr>gcold = gc_enabled s, sc_partname = resolve_partname partname report_apart,
              sc_report_apart = report_apart, sc_i = current_iteration s,
              sc_start_time = tm (ticks s), sc_store = store_id s\<rparr>"
  let ?s1 = "(add_name report_apart (resolve_partname partname report_apart) s)
              \<lparr>gc_enabled := gc_enabled s \<and> \<not> resolve_turn_gc_off turn_gc_off s,
               ticks := Suc (ticks s)\<rparr>"
  have enter: "part_enter tm partname report_apart turn_gc_off s = (Inr ?sc, ?s1)"
    by (rule part_enter_ok[OF False])
  have "names_of c s \<subseteq> names_of c ?s1"
    by (auto simp: names_of_def add_name_def)
  also have "\<dots> \<subseteq> names_of c (snd (b ?s1))" by (rule assms)
  also have "\<dots> = names_of c (snd (part_exit tm ?sc (fst (b ?s1)) (snd (b ?s1))))"
    by (simp add: names_kept_by_exit)
  also have "\<dots> = names_of c (snd (part tm partname report_apart turn_gc_off b s))"
    using enter by (simp add: part_def split: prod.splits)
  finally show ?thesis .
qed

lemma names_grow_in_loop:
  assumes "\<And>v s. names_of c s \<subseteq> names_of c (snd (b v s))"
  shows "for_loop k tm b s = Some (vs, r, s') \<Longrightarrow> names_of c s \<subseteq> names_of c s'"
proof (induction k arbitrary: s vs)
  case 0
  then show ?case by simp
next
  case (Suc k)
  obtain x s1 where n: "bench_next tm s = (x, s1)" by (cases "bench_next tm s")
  have k1: "names_of c s1 = names_of c s" using names_kept_by_next[of c tm s] n by simp
  show ?case
  proof (cases x)
    case (Item v)
    obtain r2 s2 where b: "b v s1 = (r2, s2)" by (cases "b v s1")
    have k2: "names_of c s1 \<subseteq> names_of c s2" using assms[of s1 v] b by simp
    show ?thesis
    proof (cases r2)
      case None
      with Suc.prems n Item b obtain vs' where "for_loop k tm b s2 = Some (vs', r, s')"
        by (auto split: option.splits)
      from Suc.IH[OF this] k1 k2 show ?thesis by auto
    next
      case (Some e)
      with Suc.prems n Item b have "s' = s2" by simp
      with k1 k2 show ?thesis by simp
    qed
  next
    case StopIteration
    with Suc.prems n k1 show ?thesis by auto
  next
    case (Failure e)
    with Suc.prems n k1 show ?thesis by auto
  qed
qed

text \<open>
  Claim C3. Let a scope named \<open>X\<close> be opened under one reporting class. Then \<open>X\<close> is
  registered under that class, and in every later state of the run, which is one where the
  names of that class are still registered, opening a scope named \<open>X\<close> under the other
  class raises \<^verbatim>\<open>AttributeError\<close>. The state is then the same but for the collector's
  switch: the timer has not been read, the body has not run, and the names and the samples
  are what they were.
\<close>

theorem part_class_is_fixed:
  assumes "part_enter tm partname report_apart turn_gc_off s = (Inr sc, s1)"
  shows "resolve_partname partname report_apart \<in> names_of report_apart s1 \<and>
         (\<forall>s2 partname' turn_gc_off' b.
            names_of report_apart s1 \<subseteq> names_of report_apart s2 \<longrightarrow>
            resolve_partname partname' (\<not> report_apart) = resolve_partname partname report_apart \<longrightarrow>
            part tm partname' (\<not> report_apart) turn_gc_off' b s2 =
              (Some (AttributeError report_apart_message),
               s2\<lparr>gc_enabled := gc_enabled s2 \<and> \<not> resolve_turn_gc_off turn_gc_off' s2\<rparr>))"
proof (intro conjI allI impI)
  show reg: "resolve_partname partname report_apart \<in> names_of report_apart s1"
    using part_enter_Inr_D[OF assms] by simp
  fix s2 partname' turn_gc_off' b
  assume later: "names_of report_apart s1 \<subseteq> names_of report_apart s2"
    and same: "resolve_partname partname' (\<not> report_apart) = resolve_partname partname report_apart"
  from reg later same
  have "resolve_partname partname' (\<not> report_apart) \<in> names_of (\<not> \<not> report_apart) s2" by auto
  from part_enter_error[OF this, of tm turn_gc_off']
  show "part tm partname' (\<not> report_apart) turn_gc_off' b s2 =
          (Some (AttributeError report_apart_message),
           s2\<lparr>gc_enabled := gc_enabled s2 \<and> \<not> resolve_turn_gc_off turn_gc_off' s2\<rparr>)"
    by (simp add: part_def)
qed

text \<open>
  Claim C10. Let the name of a scope be registered under the other reporting class, let the
  collector be on and let the scope be asked to switch it off. Then opening the scope raises
  \<^verbatim>\<open>AttributeError\<close> and leaves the collector off: it was switched off before the
  check, and the code that switches it on again stands after the \<^verbatim>\<open>yield\<close>. The
  timer has not been read.
\<close>

theorem consistency_error_leaves_gc_off:
  assumes "resolve_partname partname report_apart \<in> names_of (\<not> report_apart) s"
    and "resolve_turn_gc_off turn_gc_off s" and "gc_enabled s"
  shows "fst (part tm partname report_apart turn_gc_off b s)
           = Some (AttributeError report_apart_message) \<and>
         \<not> gc_enabled (snd (part tm partname report_apart turn_gc_off b s)) \<and>
         ticks (snd (part tm partname report_apart turn_gc_off b s)) = ticks s"
  using part_enter_error[OF assms(1), of tm turn_gc_off] assms(2)
  by (simp add: part_def)

lemma keys_ensure_iteration: "fst ` set (ensure_iteration i b) = insert i (fst ` set b)"
  by (auto simp: ensure_iteration_def dom_update)

lemma map_of_ensure_iteration:
  "map_of (ensure_iteration i b) j =
     (if j = i then Some (case map_of b i of None \<Rightarrow> [] | Some d \<Rightarrow> d) else map_of b j)"
proof (cases "i \<in> fst ` set b")
  case True
  then obtain d where "map_of b i = Some d"
    by (metis domD dom_map_of_conv_image_fst)
  with True show ?thesis by (simp add: ensure_iteration_def)
next
  case False
  then have "map_of b i = None" by (simp add: map_of_eq_None_iff)
  with False show ?thesis by (simp add: ensure_iteration_def update_conv')
qed

lemma map_of_record_delta:
  "map_of (record_delta pn i delta b) j =
     (if j = i then Some (add_delta pn delta (case map_of b i of None \<Rightarrow> [] | Some d \<Rightarrow> d))
      else map_of b j)"
  by (simp add: record_delta_def Let_def map_of_ensure_iteration update_conv')

lemma keys_record_delta: "fst ` set (record_delta pn i delta b) = insert i (fst ` set b)"
  by (simp add: record_delta_def Let_def map_of_ensure_iteration dom_update keys_ensure_iteration)

lemma map_of_add_delta:
  "map_of (add_delta pn delta d) q =
     (if q = pn then Some (Some (case map_of d pn of Some (Some t) \<Rightarrow> t + delta | _ \<Rightarrow> delta))
      else map_of d q)"
  by (simp add: add_delta_def update_conv' split: option.splits)

lemma sample_record_delta:
  "sample (record_delta pn i delta b) j q =
     (if j = i \<and> q = pn
      then Some (case sample b i pn of None \<Rightarrow> delta | Some t \<Rightarrow> t + delta)
      else sample b j q)"
  by (auto simp: sample_def map_of_record_delta map_of_add_delta split: option.splits)

lemma sample_ensure_iteration: "sample (ensure_iteration i b) j q = sample b j q"
  by (auto simp: sample_def map_of_ensure_iteration split: option.splits)

lemma distinct_add_delta: "distinct (map fst d) \<Longrightarrow> distinct (map fst (add_delta pn delta d))"
  by (simp add: add_delta_def distinct_update split: option.splits)

lemma wf_store_update:
  assumes "wf_store b" and "distinct (map fst d)"
  shows "wf_store (AList.update i d b)"
proof -
  have "set (AList.update i d b) \<subseteq> insert (i, d) (set b)"
    by (induction b) auto
  with assms show ?thesis by (auto simp: wf_store_def distinct_update)
qed

lemma wf_store_ensure_iteration: "wf_store b \<Longrightarrow> wf_store (ensure_iteration i b)"
  by (simp add: ensure_iteration_def wf_store_update)

lemma wf_store_record_delta:
  assumes "wf_store b"
  shows "wf_store (record_delta pn i delta b)"
proof -
  let ?b1 = "ensure_iteration i b"
  have wf1: "wf_store ?b1" using assms by (rule wf_store_ensure_iteration)
  show ?thesis
  proof (cases "map_of ?b1 i")
    case None
    with wf1 show ?thesis by (simp add: record_delta_def)
  next
    case (Some d)
    then have "d \<in> snd ` set ?b1" by (force dest: map_of_SomeD)
    with wf1 have "distinct (map fst d)" by (auto simp: wf_store_def)
    then have "distinct (map fst (add_delta pn delta d))" by (rule distinct_add_delta)
    with wf1 Some show ?thesis by (simp add: record_delta_def wf_store_update)
  qed
qed

lemma benches_of_part_commit:
  assumes "sc_store sc = store_id s"
  shows "benches_of (sc_report_apart sc) (part_commit sc delta s) =
           record_delta (sc_partname sc) (sc_i sc) delta (benches_of (sc_report_apart sc) s)"
    and "benches_of (\<not> sc_report_apart sc) (part_commit sc delta s) =
           ensure_iteration (sc_i sc) (benches_of (\<not> sc_report_apart sc) s)"
  using assms by (simp_all add: part_commit_def benches_of_def)

text \<open>
  Claim C7. Let two scopes of one reporting class, one name \<open>p\<close> and one iteration \<open>i\<close>
  commit the durations \<open>d1\<close> and \<open>d2\<close>, the first when there is no sample for \<open>(i, p)\<close>
  yet, the second when the store of the class is as the first left it. Then the sample for
  \<open>(i, p)\<close> is \<open>d1\<close> after the first commit and \<open>d1 + d2\<close> after the second, and the
  store is still a dictionary of dictionaries: there is one entry for \<open>p\<close>.
\<close>

theorem same_part_accumulates:
  assumes "sc_report_apart sc1 = ra" and "sc_i sc1 = i" and "sc_partname sc1 = p"
    and "sc_report_apart sc2 = ra" and "sc_i sc2 = i" and "sc_partname sc2 = p"
    and "sc_store sc1 = store_id s" and "sample (benches_of ra s) i p = None"
    and "sc_store sc2 = store_id s'"
    and "benches_of ra s' = benches_of ra (part_commit sc1 d1 s)"
  shows "sample (benches_of ra (part_commit sc1 d1 s)) i p = Some d1 \<and>
         sample (benches_of ra (part_commit sc2 d2 s')) i p = Some (d1 + d2) \<and>
         (wf_store (benches_of ra s) \<longrightarrow> wf_store (benches_of ra (part_commit sc2 d2 s')))"
proof -
  have one: "benches_of ra (part_commit sc1 d1 s) = record_delta p i d1 (benches_of ra s)"
    using benches_of_part_commit(1)[of sc1 s d1] assms(1,2,3,7) by simp
  have two: "benches_of ra (part_commit sc2 d2 s') = record_delta p i d2 (benches_of ra s')"
    using benches_of_part_commit(1)[of sc2 s' d2] assms(4,5,6,9) by simp
  have first: "sample (benches_of ra (part_commit sc1 d1 s)) i p = Some d1"
    using assms(8) by (simp add: one sample_record_delta)
  have "sample (benches_of ra s') i p = Some d1"
    using first assms(10) by simp
  then have second: "sample (benches_of ra (part_commit sc2 d2 s')) i p = Some (d1 + d2)"
    by (simp add: two sample_record_delta)
  have "wf_store (benches_of ra (part_commit sc2 d2 s'))" if "wf_store (benches_of ra s)"
    using that by (simp add: two assms(10) one wf_store_record_delta)
  with first second show ?thesis by simp
qed

lemma measures_loop_eq:
  "measures_loop pn b ks = List.map_filter (\<lambda>i. sample b i pn) ks"
  by (induction ks) (simp_all add: sample_def map_filter_simps split: option.splits)

text \<open>
  Claim C8. Consuming \<^verbatim>\<open>iter_measures_part(p)\<close> fails if and only if \<open>p\<close> is in
  neither set of names, and then with \<^verbatim>\<open>KeyError\<close>. For a registered name it yields,
  iteration by iteration in the order of the store of its class, the sample of \<open>p\<close> where
  the iteration has one and nothing where it has none.
\<close>

theorem iter_measures_part_lookup:
  "(isl (iter_measures_part p s) \<longleftrightarrow> p \<notin> parts_names s \<union> apart_names s) \<and>
   (p \<notin> parts_names s \<union> apart_names s \<longrightarrow>
      iter_measures_part p s = Inl (KeyError (no_part_message p))) \<and>
   (p \<in> parts_names s \<longrightarrow>
      iter_measures_part p s =
        Inr (List.map_filter (\<lambda>i. sample (parts_benches s) i p) (map fst (parts_benches s)))) \<and>
   (p \<notin> parts_names s \<longrightarrow> p \<in> apart_names s \<longrightarrow>
      iter_measures_part p s =
        Inr (List.map_filter (\<lambda>i. sample (apart_benches s) i p) (map fst (apart_benches s))))"
  by (simp add: iter_measures_part_def measures_loop_eq)

text \<open>The rounding: \<open>ilog2\<close> is the exponent, and the rounded number is nearest.\<close>

lemma pow2_powi: "pow2 k = 2 powi k"
  by (simp add: pow2_def power_int_def power_one_over)

lemma pow2_pos: "0 < pow2 k"
  by (simp add: pow2_def)

lemma pow2_add: "pow2 (a + b) = pow2 a * pow2 b"
  by (simp add: pow2_powi power_int_add)

lemma pow2_mono: "a \<le> b \<Longrightarrow> pow2 a \<le> pow2 b"
  by (simp add: pow2_powi power_int_increasing)

lemma pow2_strict_mono: "a < b \<Longrightarrow> pow2 a < pow2 b"
  by (simp add: pow2_powi power_int_strict_increasing)

lemma pow2_less_D: "pow2 a < pow2 b \<Longrightarrow> a < b"
  using pow2_mono[of b a] by (cases "a < b") auto

lemma ilog2_bounds:
  assumes "x \<noteq> 0"
  shows "pow2 (ilog2 x) \<le> \<bar>x\<bar> \<and> \<bar>x\<bar> < pow2 (ilog2 x + 1)"
proof (cases "1 \<le> \<bar>x\<bar>")
  case True
  define n where "n = \<lfloor>\<bar>x\<bar>\<rfloor>"
  define b where "b = bitlen n"
  have n1: "1 \<le> n" using True by (simp add: n_def le_floor_iff)
  then have b1: "1 \<le> b" using bitlen_eq_zero_iff[of n] bitlen_nonneg[of n] by (simp add: b_def)
  from bitlen_bounds[of n] n1 have bb: "2 ^ nat (b - 1) \<le> n" "n < 2 ^ nat b"
    by (simp_all add: b_def)
  have lo: "of_int n \<le> \<bar>x\<bar>" and hi: "\<bar>x\<bar> < of_int n + 1"
    using floor_correct[of "\<bar>x\<bar>"] by (simp_all add: n_def)
  have "(of_int (2 ^ nat (b - 1)) :: rat) \<le> of_int n" using bb(1) by (simp only: of_int_le_iff)
  then have "(2::rat) ^ nat (b - 1) \<le> of_int n" by simp
  with lo have "(2::rat) ^ nat (b - 1) \<le> \<bar>x\<bar>" by linarith
  then have l: "pow2 (b - 1) \<le> \<bar>x\<bar>" using b1 by (simp add: pow2_def)
  have "n + 1 \<le> 2 ^ nat b" using bb(2) by simp
  then have "(of_int (n + 1) :: rat) \<le> of_int (2 ^ nat b)" by (simp only: of_int_le_iff)
  then have "of_int n + 1 \<le> (2::rat) ^ nat b" by simp
  with hi have "\<bar>x\<bar> < (2::rat) ^ nat b" by linarith
  then have h: "\<bar>x\<bar> < pow2 b" using b1 by (simp add: pow2_def)
  from True l h show ?thesis by (simp add: ilog2_def n_def b_def)
next
  case False
  define y where "y = 1 / \<bar>x\<bar>"
  define n where "n = \<lfloor>y\<rfloor>"
  define b where "b = bitlen n"
  have xpos: "0 < \<bar>x\<bar>" using assms by simp
  have y1: "1 < y" using False xpos by (simp add: y_def)
  have n1: "1 \<le> n" using y1 by (simp add: n_def le_floor_iff)
  then have b1: "1 \<le> b" using bitlen_eq_zero_iff[of n] bitlen_nonneg[of n] by (simp add: b_def)
  from bitlen_bounds[of n] n1 have bb: "2 ^ nat (b - 1) \<le> n" "n < 2 ^ nat b"
    by (simp_all add: b_def)
  have lo: "of_int n \<le> y" and hi: "y < of_int n + 1"
    using floor_correct[of y] by (simp_all add: n_def)
  have "(of_int (2 ^ nat (b - 1)) :: rat) \<le> of_int n" using bb(1) by (simp only: of_int_le_iff)
  then have "(2::rat) ^ nat (b - 1) \<le> of_int n" by simp
  with lo have l: "2 ^ nat (b - 1) \<le> y" by linarith
  have "n + 1 \<le> 2 ^ nat b" using bb(2) by simp
  then have "(of_int (n + 1) :: rat) \<le> of_int (2 ^ nat b)" by (simp only: of_int_le_iff)
  then have "of_int n + 1 \<le> (2::rat) ^ nat b" by simp
  with hi have h: "y < 2 ^ nat b" by linarith
  have x: "\<bar>x\<bar> = 1 / y" using xpos by (simp add: y_def)
  have ypos: "0 < y" using y1 by simp
  have up: "\<bar>x\<bar> \<le> pow2 (1 - b)"
    using l ypos b1 y1 by (auto simp: x pow2_def field_simps)
  have down: "pow2 (- b) < \<bar>x\<bar>"
    using h ypos b1 y1 by (auto simp: x pow2_def field_simps)
  have e: "ilog2 x = (if pow2 (1 - b) \<le> \<bar>x\<bar> then 1 - b else - b)"
    using False by (simp add: ilog2_def y_def n_def b_def Let_def)
  show ?thesis
  proof (cases "pow2 (1 - b) \<le> \<bar>x\<bar>")
    case True
    have "pow2 (1 - b) < pow2 (1 - b + 1)" by (rule pow2_strict_mono) simp
    with True up e show ?thesis by simp
  next
    case False
    with down e show ?thesis by (simp add: algebra_simps)
  qed
qed

lemma ilog2_less:
  assumes "x \<noteq> 0" and "\<bar>x\<bar> < pow2 n"
  shows "ilog2 x < n"
  using ilog2_bounds[OF assms(1)] assms(2) pow2_less_D[of "ilog2 x" n] by simp

lemma round_half_even_int [simp]: "round_half_even (of_int j) = j"
  by (simp add: round_half_even_def)

lemma round_half_even_near: "\<bar>of_int (round_half_even q) - q\<bar> \<le> 1 / 2"
proof -
  define n where "n = \<lfloor>q\<rfloor>"
  have "of_int n \<le> q" "q < of_int n + 1" using floor_correct[of q] by (simp_all add: n_def)
  then show ?thesis
    unfolding round_half_even_def Let_def n_def[symmetric] by (auto simp: abs_if)
qed

text \<open>The rounded number is within half a unit in the last place.\<close>

lemma round64_near:
  "\<bar>round64 x - x\<bar> \<le> pow2 (max (ilog2 x) (- 1022) - 52) / 2"
proof (cases "x = 0")
  case True
  then show ?thesis using pow2_pos[of "max (ilog2 0) (- 1022) - 52"] by (simp add: round64_def)
next
  case False
  define k where "k = max (ilog2 x) (- 1022) - 52"
  have p: "0 < pow2 k" by (rule pow2_pos)
  have "round64 x - x = (of_int (round_half_even (x / pow2 k)) - x / pow2 k) * pow2 k"
    using False p by (simp add: round64_def k_def Let_def field_simps)
  then have "\<bar>round64 x - x\<bar> = \<bar>of_int (round_half_even (x / pow2 k)) - x / pow2 k\<bar> * pow2 k"
    using p by (simp add: abs_mult)
  also have "\<dots> \<le> 1 / 2 * pow2 k"
    using round_half_even_near[of "x / pow2 k"] p by (intro mult_right_mono) simp_all
  finally show ?thesis by (simp add: k_def)
qed

lemma round64_int:
  assumes "\<bar>i\<bar> < 2 ^ 53"
  shows "round64 (of_int i) = of_int i"
proof (cases "i = 0")
  case True
  then show ?thesis by (simp add: round64_def)
next
  case False
  define k where "k = max (ilog2 (of_int i)) (- 1022) - 52"
  have "\<bar>of_int i :: rat\<bar> < of_int (2 ^ 53)"
    using assms by (simp only: of_int_abs[symmetric] of_int_less_iff)
  then have "\<bar>of_int i :: rat\<bar> < pow2 53" by (simp add: pow2_def)
  with False have "ilog2 (of_int i) < 53" by (intro ilog2_less) simp_all
  then have k0: "k \<le> 0" by (simp add: k_def)
  have inv: "1 / pow2 k = 2 ^ nat (- k)" using k0 by (auto simp: pow2_def)
  have "of_int i / pow2 k = of_int i * (1 / pow2 k)" by simp
  then have "of_int i / pow2 k = (of_int (i * 2 ^ nat (- k)) :: rat)"
    by (simp only: inv of_int_mult of_int_power of_int_numeral)
  then have "round_half_even (of_int i / pow2 k) = i * 2 ^ nat (- k)"
    by (simp only: round_half_even_int)
  moreover have "(of_int (i * 2 ^ nat (- k)) :: rat) * pow2 k = of_int i"
    using inv pow2_pos[of k] by (simp add: field_simps)
  ultimately show ?thesis using False by (simp add: round64_def k_def[symmetric] Let_def)
qed

lemma round64_bound:
  assumes "\<bar>x\<bar> < 2 ^ 53"
  shows "\<bar>round64 x\<bar> < 2 ^ 54"
proof (cases "x = 0")
  case True
  then show ?thesis by (simp add: round64_def)
next
  case False
  define k where "k = max (ilog2 x) (- 1022) - 52"
  define q where "q = x / pow2 k"
  have "\<bar>x\<bar> < pow2 53" using assms by (simp add: pow2_def)
  with False have "ilog2 x < 53" by (intro ilog2_less) simp_all
  then have "k \<le> 0" by (simp add: k_def)
  then have p1: "pow2 k \<le> 1" using pow2_mono[of k 0] by (simp add: pow2_def)
  have r: "round64 x = of_int (round_half_even q) * pow2 k"
    using False by (simp add: round64_def k_def[symmetric] q_def Let_def)
  have x: "x = q * pow2 k" using pow2_pos[of k] by (simp add: q_def)
  have "\<bar>round64 x - x\<bar> = \<bar>of_int (round_half_even q) - q\<bar> * pow2 k"
    using pow2_pos[of k] by (simp add: r x[symmetric] q_def abs_mult[symmetric] field_simps)
  also have "\<dots> \<le> (1 / 2) * pow2 k"
    using round_half_even_near[of q] pow2_pos[of k] by (intro mult_right_mono) simp_all
  also have "\<dots> \<le> 1" using p1 by simp
  finally have "\<bar>round64 x - x\<bar> \<le> 1" .
  with assms show ?thesis by (simp add: abs_if split: if_splits)
qed

text \<open>
  Below \<open>2\<^sup>5\<^sup>3\<close> in absolute value an integer is a float, and nothing overflows.
\<close>

lemma below_overflow: "\<bar>r\<bar> < 2 ^ 54 \<Longrightarrow> \<not> (2::rat) ^ 1024 \<le> \<bar>r\<bar>"
proof -
  have "(2::rat) ^ 54 \<le> 2 ^ 1024" by (rule power_increasing) simp_all
  then show "\<bar>r\<bar> < 2 ^ 54 \<Longrightarrow> \<not> (2::rat) ^ 1024 \<le> \<bar>r\<bar>" by linarith
qed

lemma ieee_small:
  assumes "\<bar>x\<bar> < 2 ^ 53"
  shows "ieee x = Finite (round64 x)"
proof -
  from round64_bound[OF assms] have "\<not> (2::rat) ^ 1024 \<le> \<bar>round64 x\<bar>"
    by (rule below_overflow)
  then have "\<not> 2 ^ 1024 \<le> round64 x" "\<not> round64 x \<le> - (2 ^ 1024)"
    by (simp_all add: abs_if split: if_splits)
  then show ?thesis by (simp add: ieee_def Let_def)
qed

lemma float_of_int_small:
  assumes "\<bar>i\<bar> < 2 ^ 53"
  shows "float_of_int i = Inr (of_int i)"
proof -
  have "\<bar>of_int i :: rat\<bar> < of_int (2 ^ 53)"
    using assms by (simp only: of_int_abs[symmetric] of_int_less_iff)
  then have "\<bar>of_int i :: rat\<bar> < 2 ^ 54" by simp
  then have "\<not> (2::rat) ^ 1024 \<le> \<bar>of_int i\<bar>" by (rule below_overflow)
  then show ?thesis by (simp add: float_of_int_def round64_int[OF assms] Let_def)
qed

lemma int_true_div_small:
  assumes "b \<noteq> 0" and "\<bar>of_int a / of_int b :: rat\<bar> < 2 ^ 53"
  shows "int_true_div a b = Inr (Finite (round64 (of_int a / of_int b)))"
proof -
  from round64_bound[OF assms(2)] have "\<not> (2::rat) ^ 1024 \<le> \<bar>round64 (of_int a / of_int b)\<bar>"
    by (rule below_overflow)
  with assms(1) show ?thesis by (simp add: int_true_div_def Let_def)
qed

lemma float_add_int_small:
  assumes "\<bar>i\<bar> < 2 ^ 53"
  shows "float_add_int a i =
           Inr (case a of Finite x \<Rightarrow> ieee (x + of_int i) | PlusInf \<Rightarrow> PlusInf | MinusInf \<Rightarrow> MinusInf)"
  by (simp add: float_add_int_def float_of_int_small[OF assms])

lemma float_div_int_small:
  assumes "0 < i" and "i < 2 ^ 53"
  shows "float_div_int a i =
           Inr (case a of Finite x \<Rightarrow> ieee (x / of_int i) | PlusInf \<Rightarrow> PlusInf | MinusInf \<Rightarrow> MinusInf)"
proof -
  have "\<bar>i\<bar> < 2 ^ 53" using assms by simp
  from float_of_int_small[OF this] assms(1) show ?thesis
    by (simp add: float_div_int_def)
qed

lemma add_measure_D:
  assumes "add_measure stat t = Inr stat'"
  shows "loop_n stat' = loop_n stat + 1"
    and "loop_min stat' = Some (case loop_min stat of None \<Rightarrow> t | Some m \<Rightarrow> min m t)"
    and "float_add_int (loop_total stat) t = Inr (loop_total stat')"
  using assms
  by (auto simp: add_measure_def Let_def min_def split: sum.splits option.splits if_splits)

lemma add_measures_count:
  "add_measures stat ms = Inr stat' \<Longrightarrow> loop_n stat' = loop_n stat + int (length (present ms))"
proof (induction ms arbitrary: stat)
  case Nil
  then show ?case by simp
next
  case (Cons m ms)
  show ?case
  proof (cases m)
    case None
    with Cons show ?thesis by simp
  next
    case (Some t)
    with Cons.prems obtain s1 where a: "add_measure stat t = Inr s1"
      and r: "add_measures s1 ms = Inr stat'"
      by (auto split: sum.splits)
    from Cons.IH[OF r] add_measure_D(1)[OF a] Some show ?thesis by simp
  qed
qed

lemma add_measures_min:
  "add_measures stat ms = Inr stat' \<Longrightarrow>
   loop_min stat' =
     (if present ms = [] then loop_min stat
      else Some (case loop_min stat of
                   None \<Rightarrow> Min (set (present ms))
                 | Some m \<Rightarrow> min m (Min (set (present ms)))))"
proof (induction ms arbitrary: stat)
  case Nil
  then show ?case by simp
next
  case (Cons m ms)
  show ?case
  proof (cases m)
    case None
    with Cons show ?thesis by (simp cong: option.case_cong)
  next
    case (Some t)
    with Cons.prems obtain s1 where a: "add_measure stat t = Inr s1"
      and r: "add_measures s1 ms = Inr stat'"
      by (auto split: sum.splits)
    note ih = Cons.IH[OF r] and m1 = add_measure_D(2)[OF a]
    show ?thesis
    proof (cases "present ms = []")
      case True
      with ih m1 Some show ?thesis by (simp split: option.splits)
    next
      case False
      with ih m1 Some show ?thesis by (simp add: min.assoc split: option.splits)
    qed
  qed
qed

lemma add_measures_small:
  assumes "\<forall>t\<in>set (present ms). \<bar>t\<bar> < 2 ^ 53"
  shows "\<exists>stat'. add_measures stat ms = Inr stat'"
  using assms
proof (induction ms arbitrary: stat)
  case Nil
  then show ?case by simp
next
  case (Cons m ms)
  show ?case
  proof (cases m)
    case None
    with Cons show ?thesis by simp
  next
    case (Some t)
    with Cons.prems have t: "\<bar>t\<bar> < 2 ^ 53" and rest: "\<forall>t\<in>set (present ms). \<bar>t\<bar> < 2 ^ 53"
      by simp_all
    from float_add_int_small[OF t, of "loop_total stat"]
    have "\<exists>s1. add_measure stat t = Inr s1"
      by (cases "loop_min stat") (simp_all add: add_measure_def Let_def)
    then obtain s1 where "add_measure stat t = Inr s1" ..
    with Cons.IH[OF rest, of s1] Some show ?thesis by simp
  qed
qed

text \<open>The two inputs of the specification, and one with a \<^verbatim>\<open>None\<close>.\<close>

lemma round64_numeral:
  "numeral w < (2::int) ^ 53 \<Longrightarrow> round64 (numeral w) = numeral w"
  using round64_int[of "numeral w"] by simp

lemma get_stats_empty:
  "priv_get_stats [] = Inr \<lparr>stat_total = Finite 0, stat_n = 0, stat_avg = None, stat_min = None\<rparr>"
  by (simp add: priv_get_stats_def ns_to_ms_def float_div_int_small ieee_small round64_def)

lemma get_stats_example:
  "priv_get_stats [Some 100, Some 50, Some 150] =
     Inr \<lparr>stat_total = Finite (5534023222112865 / 18446744073709551616), stat_n = 3,
          stat_avg = Some (Finite (1844674407370955 / 18446744073709551616)),
          stat_min = Some (Finite (7378697629483821 / 147573952589676412928))\<rparr>"
proof -
  have loop: "add_measures \<lparr>loop_total = Finite 0, loop_n = 0, loop_min = None\<rparr>
                [Some 100, Some 50, Some 150]
              = Inr \<lparr>loop_total = Finite 300, loop_n = 3, loop_min = Some 50\<rparr>"
    by (simp add: add_measure_def float_add_int_small ieee_small round64_numeral Let_def)
  have r1: "round64 (300 / 1000000) = 5534023222112865 / 18446744073709551616" by code_simp
  have r2: "round64 (50 / 1000000) = 7378697629483821 / 147573952589676412928" by code_simp
  have r3: "round64 (5534023222112865 / 18446744073709551616 / 3)
              = 1844674407370955 / 18446744073709551616" by code_simp
  have total: "float_div_int (Finite 300) ns_to_ms
                 = Inr (Finite (5534023222112865 / 18446744073709551616))"
    using r1 by (simp add: ns_to_ms_def float_div_int_small ieee_small)
  have least: "int_true_div 50 ns_to_ms
                 = Inr (Finite (7378697629483821 / 147573952589676412928))"
    using r2 by (simp add: ns_to_ms_def int_true_div_small)
  have avg: "float_div_int (Finite (5534023222112865 / 18446744073709551616)) 3
               = Inr (Finite (1844674407370955 / 18446744073709551616))"
    using r3 by (simp add: float_div_int_small ieee_small)
  show ?thesis unfolding priv_get_stats_def loop by (simp add: total least avg)
qed

lemma get_stats_sparse:
  "priv_get_stats [Some 7, None, Some 3] =
     Inr \<lparr>stat_total = Finite (5902958103587057 / 590295810358705651712), stat_n = 2,
          stat_avg = Some (Finite (5902958103587057 / 1180591620717411303424)),
          stat_min = Some (Finite (1770887431076117 / 590295810358705651712))\<rparr> \<and>
   float_div_int (Finite (5902958103587057 / 590295810358705651712)) 2
     = Inr (Finite (5902958103587057 / 1180591620717411303424)) \<and>
   int_true_div 3 ns_to_ms = Inr (Finite (1770887431076117 / 590295810358705651712))"
proof -
  have loop: "add_measures \<lparr>loop_total = Finite 0, loop_n = 0, loop_min = None\<rparr>
                [Some 7, None, Some 3]
              = Inr \<lparr>loop_total = Finite 10, loop_n = 2, loop_min = Some 3\<rparr>"
    by (simp add: add_measure_def float_add_int_small ieee_small round64_numeral Let_def)
  have r1: "round64 (10 / 1000000) = 5902958103587057 / 590295810358705651712" by code_simp
  have r2: "round64 (3 / 1000000) = 1770887431076117 / 590295810358705651712" by code_simp
  have r3: "round64 (5902958103587057 / 590295810358705651712 / 2)
              = 5902958103587057 / 1180591620717411303424" by code_simp
  have total: "float_div_int (Finite 10) ns_to_ms
                 = Inr (Finite (5902958103587057 / 590295810358705651712))"
    using r1 by (simp add: ns_to_ms_def float_div_int_small ieee_small)
  have least: "int_true_div 3 ns_to_ms
                 = Inr (Finite (1770887431076117 / 590295810358705651712))"
    using r2 by (simp add: ns_to_ms_def int_true_div_small)
  have avg: "float_div_int (Finite (5902958103587057 / 590295810358705651712)) 2
               = Inr (Finite (5902958103587057 / 1180591620717411303424))"
    using r3 by (simp add: float_div_int_small ieee_small)
  have "priv_get_stats [Some 7, None, Some 3] =
     Inr \<lparr>stat_total = Finite (5902958103587057 / 590295810358705651712), stat_n = 2,
          stat_avg = Some (Finite (5902958103587057 / 1180591620717411303424)),
          stat_min = Some (Finite (1770887431076117 / 590295810358705651712))\<rparr>"
    unfolding priv_get_stats_def loop by (simp add: total least avg)
  with avg least show ?thesis by (intro conjI)
qed

text \<open>What a returned summary is made of, and when there is one.\<close>

lemma priv_get_stats_D:
  assumes "priv_get_stats ms = Inr st"
  shows "\<exists>stat. add_measures \<lparr>loop_total = Finite 0, loop_n = 0, loop_min = None\<rparr> ms = Inr stat \<and>
           float_div_int (loop_total stat) ns_to_ms = Inr (stat_total st) \<and>
           stat_n st = loop_n stat \<and>
           (case loop_min stat of
              None \<Rightarrow> stat_min st = None
            | Some m \<Rightarrow> \<exists>d. int_true_div m ns_to_ms = Inr d \<and> stat_min st = Some d) \<and>
           (if loop_n stat > 0
            then \<exists>a. float_div_int (stat_total st) (loop_n stat) = Inr a \<and> stat_avg st = Some a
            else stat_avg st = None)"
proof -
  let ?init = "\<lparr>loop_total = Finite 0, loop_n = 0, loop_min = None\<rparr>"
  from assms obtain stat where l: "add_measures ?init ms = Inr stat"
    by (cases "add_measures ?init ms") (simp_all add: priv_get_stats_def)
  from assms l obtain tot where t: "float_div_int (loop_total stat) ns_to_ms = Inr tot"
    by (cases "float_div_int (loop_total stat) ns_to_ms") (simp_all add: priv_get_stats_def)
  show ?thesis
  proof (cases "loop_min stat")
    case None
    show ?thesis
    proof (cases "loop_n stat > 0")
      case True
      with assms l t None obtain a where "float_div_int tot (loop_n stat) = Inr a"
        by (cases "float_div_int tot (loop_n stat)") (simp_all add: priv_get_stats_def)
      with assms l t None True show ?thesis by (auto simp: priv_get_stats_def)
    next
      case False
      with assms l t None show ?thesis by (auto simp: priv_get_stats_def)
    qed
  next
    case (Some m)
    with assms l t obtain d where d: "int_true_div m ns_to_ms = Inr d"
      by (cases "int_true_div m ns_to_ms") (simp_all add: priv_get_stats_def)
    show ?thesis
    proof (cases "loop_n stat > 0")
      case True
      with assms l t Some d obtain a where "float_div_int tot (loop_n stat) = Inr a"
        by (cases "float_div_int tot (loop_n stat)") (simp_all add: priv_get_stats_def)
      with assms l t Some d True show ?thesis by (auto simp: priv_get_stats_def)
    next
      case False
      with assms l t Some d show ?thesis by (auto simp: priv_get_stats_def)
    qed
  qed
qed

lemma priv_get_stats_small:
  assumes "\<forall>t\<in>set (present ms). \<bar>t\<bar> < 2 ^ 53" and "length ms < 2 ^ 53"
  shows "\<exists>st. priv_get_stats ms = Inr st"
proof -
  let ?init = "\<lparr>loop_total = Finite 0, loop_n = 0, loop_min = None\<rparr>"
  from add_measures_small[OF assms(1), of ?init] obtain stat where
    l: "add_measures ?init ms = Inr stat" ..
  have n: "loop_n stat = int (length (present ms))"
    using add_measures_count[OF l] by simp
  have "length (present ms) \<le> length ms" by (induction ms) (auto split: option.splits)
  with assms(2) have "length (present ms) < 2 ^ 53" by simp
  then have "int (length (present ms)) < int (2 ^ 53)" by (simp only: of_nat_less_iff)
  then have nb: "loop_n stat < 2 ^ 53" using n by simp
  obtain tot where t: "float_div_int (loop_total stat) ns_to_ms = Inr tot"
    using float_div_int_small[of ns_to_ms "loop_total stat"] by (simp add: ns_to_ms_def)
  have avg: "\<exists>a. float_div_int tot (loop_n stat) = Inr a" if "loop_n stat > 0"
    using float_div_int_small[OF that nb, of tot] by simp
  have least: "\<exists>d. int_true_div m ns_to_ms = Inr d" if "loop_min stat = Some m" for m
  proof -
    from add_measures_min[OF l] that have ne: "present ms \<noteq> []" and m: "m = Min (set (present ms))"
      by (auto split: if_splits)
    then have "m \<in> set (present ms)" using Min_in[of "set (present ms)"] by simp
    with assms(1) have "\<bar>m\<bar> < 2 ^ 53" by blast
    then have "\<bar>of_int m :: rat\<bar> < of_int (2 ^ 53)"
      by (simp only: of_int_abs[symmetric] of_int_less_iff)
    then have "\<bar>of_int m / of_int ns_to_ms :: rat\<bar> < 2 ^ 53"
      by (simp add: ns_to_ms_def field_simps)
    from int_true_div_small[OF _ this] show ?thesis by (simp add: ns_to_ms_def)
  qed
  show ?thesis
  proof (cases "loop_min stat")
    case None
    with l t avg show ?thesis by (auto simp: priv_get_stats_def)
  next
    case (Some m)
    with l t avg least[OF Some] show ?thesis by (auto simp: priv_get_stats_def)
  qed
qed

text \<open>
  As long as the absolute values of the samples add up to less than \<open>2\<^sup>5\<^sup>3\<close>, the running
  total is the sum of the samples, without rounding.
\<close>

lemma add_measures_total:
  "add_measures stat ms = Inr stat' \<Longrightarrow> loop_total stat = Finite (of_int a) \<Longrightarrow>
   \<bar>a\<bar> + sum_list (map abs (present ms)) < 2 ^ 53 \<Longrightarrow>
   loop_total stat' = Finite (of_int (a + sum_list (present ms)))"
proof (induction ms arbitrary: stat a)
  case Nil
  then show ?case by simp
next
  case (Cons m ms)
  show ?case
  proof (cases m)
    case None
    with Cons.prems have "add_measures stat ms = Inr stat'"
      and "\<bar>a\<bar> + sum_list (map abs (present ms)) < 2 ^ 53" by simp_all
    from Cons.IH[OF this(1) Cons.prems(2) this(2)] None show ?thesis by simp
  next
    case (Some t)
    with Cons.prems(1) obtain s1 where s1: "add_measure stat t = Inr s1"
      and r: "add_measures s1 ms = Inr stat'"
      by (auto split: sum.splits)
    have nn: "0 \<le> sum_list (map abs (present ms))" by (rule sum_list_nonneg) auto
    from Cons.prems(3) Some have b: "\<bar>a\<bar> + \<bar>t\<bar> + sum_list (map abs (present ms)) < 2 ^ 53"
      by simp
    with nn have t: "\<bar>t\<bar> < 2 ^ 53" and at: "\<bar>a + t\<bar> < 2 ^ 53" by linarith+
    from at have "\<bar>(of_int (a + t) :: rat)\<bar> < 2 ^ 53"
      by (metis of_int_abs of_int_less_numeral_power_cancel_iff)
    then have "ieee (of_int (a + t)) = Finite (round64 (of_int (a + t)))" by (rule ieee_small)
    also have "round64 (of_int (a + t)) = of_int (a + t)" using at by (rule round64_int)
    finally have i: "ieee (of_int a + of_int t) = Finite (of_int (a + t))" by simp
    from add_measure_D(3)[OF s1] float_add_int_small[OF t, of "loop_total stat"] Cons.prems(2) i
    have l: "loop_total s1 = Finite (of_int (a + t))" by simp
    from b have "\<bar>a + t\<bar> + sum_list (map abs (present ms)) < 2 ^ 53" by linarith
    from Cons.IH[OF r l this] Some show ?thesis by (simp add: add.assoc)
  qed
qed

lemma priv_get_stats_total:
  assumes "priv_get_stats ms = Inr st" and "sum_list (map abs (present ms)) < 2 ^ 53"
  shows "stat_total st = Finite (round64 (of_int (sum_list (present ms)) / 1000000))"
proof -
  from priv_get_stats_D[OF assms(1)] obtain stat where
    a: "add_measures \<lparr>loop_total = Finite 0, loop_n = 0, loop_min = None\<rparr> ms = Inr stat"
    and d: "float_div_int (loop_total stat) ns_to_ms = Inr (stat_total st)" by blast
  have "loop_total stat = Finite (of_int (0 + sum_list (present ms)))"
    by (rule add_measures_total[OF a]) (use assms(2) in simp_all)
  then have l: "loop_total stat = Finite (of_int (sum_list (present ms)))" by simp
  have "\<bar>sum_list (present ms)\<bar> \<le> sum_list (map abs (present ms))" by (rule sum_list_abs)
  with assms(2) have "\<bar>sum_list (present ms)\<bar> < 2 ^ 53" by linarith
  then have "\<bar>(of_int (sum_list (present ms)) :: rat)\<bar> < 2 ^ 53"
    by (metis of_int_abs of_int_less_numeral_power_cancel_iff)
  moreover have "\<bar>(of_int (sum_list (present ms)) :: rat) / 1000000\<bar> \<le> \<bar>of_int (sum_list (present ms))\<bar>"
    by (simp add: field_simps)
  ultimately have "\<bar>(of_int (sum_list (present ms)) :: rat) / 1000000\<bar> < 2 ^ 53" by linarith
  then have i: "ieee (of_int (sum_list (present ms)) / 1000000) =
      Finite (round64 (of_int (sum_list (present ms)) / 1000000))" by (rule ieee_small)
  have "float_div_int (loop_total stat) ns_to_ms = Inr (ieee (of_int (sum_list (present ms)) / 1000000))"
    unfolding ns_to_ms_def l by (subst float_div_int_small) simp_all
  with d i show ?thesis by simp
qed

text \<open>
  Claim C4, as amended. \<^verbatim>\<open>_get_stats\<close> of the empty sequence is total 0, count 0, no
  average and no minimum. Of the samples 100, 50 and 150 nanoseconds it is count 3 and, as
  floats in milliseconds, the total \<open>300 / 10\<^sup>6\<close> rounded, the minimum \<open>50 / 10\<^sup>6\<close> rounded
  and the average that total divided by 3, rounded. For samples below \<open>2\<^sup>5\<^sup>3\<close> in absolute
  value it returns a summary. Whenever it returns one, the count is the number of samples
  that are not \<^verbatim>\<open>None\<close>; the total is the sum of the samples divided by \<open>10\<^sup>6\<close>,
  correctly rounded, as long as their absolute values add up to less than \<open>2\<^sup>5\<^sup>3\<close>; with a
  positive count the average is the float quotient of the total by the count and the
  minimum is the least sample divided by \<open>10\<^sup>6\<close>, correctly rounded; otherwise there is
  neither.
\<close>

theorem get_stats_summary:
  "priv_get_stats [] =
     Inr \<lparr>stat_total = Finite 0, stat_n = 0, stat_avg = None, stat_min = None\<rparr> \<and>
   priv_get_stats [Some 100, Some 50, Some 150] =
     Inr \<lparr>stat_total = Finite (round64 (300 / 1000000)), stat_n = 3,
          stat_avg = Some (Finite (round64 (round64 (300 / 1000000) / 3))),
          stat_min = Some (Finite (round64 (50 / 1000000)))\<rparr> \<and>
   ((\<forall>t\<in>set (present ms). \<bar>t\<bar> < 2 ^ 53) \<longrightarrow> length ms < 2 ^ 53 \<longrightarrow>
      (\<exists>st. priv_get_stats ms = Inr st)) \<and>
   (\<forall>st. priv_get_stats ms = Inr st \<longrightarrow>
      stat_n st = int (length (present ms)) \<and>
      (sum_list (map abs (present ms)) < 2 ^ 53 \<longrightarrow>
         stat_total st = Finite (round64 (of_int (sum_list (present ms)) / 1000000))) \<and>
      (stat_n st > 0 \<longrightarrow>
         (\<exists>a d. stat_avg st = Some a \<and> float_div_int (stat_total st) (stat_n st) = Inr a \<and>
                stat_min st = Some d \<and>
                int_true_div (Min (set (present ms))) ns_to_ms = Inr d)) \<and>
      (\<not> stat_n st > 0 \<longrightarrow> stat_avg st = None \<and> stat_min st = None))"
proof (intro conjI allI impI)
  show "priv_get_stats [] =
     Inr \<lparr>stat_total = Finite 0, stat_n = 0, stat_avg = None, stat_min = None\<rparr>"
    by (rule get_stats_empty)
next
  have r1: "round64 (300 / 1000000) = 5534023222112865 / 18446744073709551616" by code_simp
  have r2: "round64 (50 / 1000000) = 7378697629483821 / 147573952589676412928" by code_simp
  have r3: "round64 (5534023222112865 / 18446744073709551616 / 3)
              = 1844674407370955 / 18446744073709551616" by code_simp
  show "priv_get_stats [Some 100, Some 50, Some 150] =
     Inr \<lparr>stat_total = Finite (round64 (300 / 1000000)), stat_n = 3,
          stat_avg = Some (Finite (round64 (round64 (300 / 1000000) / 3))),
          stat_min = Some (Finite (round64 (50 / 1000000)))\<rparr>"
    by (simp only: r1 r2 r3 get_stats_example)
next
  assume "\<forall>t\<in>set (present ms). \<bar>t\<bar> < 2 ^ 53" and "length ms < 2 ^ 53"
  then show "\<exists>st. priv_get_stats ms = Inr st" by (rule priv_get_stats_small)
next
  fix st
  assume r: "priv_get_stats ms = Inr st"
  from priv_get_stats_D[OF r] obtain stat where
    l: "add_measures \<lparr>loop_total = Finite 0, loop_n = 0, loop_min = None\<rparr> ms = Inr stat"
    and n: "stat_n st = loop_n stat"
    and m: "case loop_min stat of
              None \<Rightarrow> stat_min st = None
            | Some m \<Rightarrow> \<exists>d. int_true_div m ns_to_ms = Inr d \<and> stat_min st = Some d"
    and a: "if loop_n stat > 0
            then \<exists>a. float_div_int (stat_total st) (loop_n stat) = Inr a \<and> stat_avg st = Some a
            else stat_avg st = None"
    by blast
  have cnt: "loop_n stat = int (length (present ms))" using add_measures_count[OF l] by simp
  have mn: "loop_min stat = (if present ms = [] then None else Some (Min (set (present ms))))"
    using add_measures_min[OF l] by simp
  show "stat_n st = int (length (present ms))" using n cnt by simp
  {
    assume "sum_list (map abs (present ms)) < 2 ^ 53"
    with r show "stat_total st = Finite (round64 (of_int (sum_list (present ms)) / 1000000))"
      by (rule priv_get_stats_total)
  }
  {
    assume "stat_n st > 0"
    with n cnt have ne: "present ms \<noteq> []" and pos: "loop_n stat > 0" by auto
    from a pos n m mn ne
    show "\<exists>a d. stat_avg st = Some a \<and> float_div_int (stat_total st) (stat_n st) = Inr a \<and>
                stat_min st = Some d \<and>
                int_true_div (Min (set (present ms))) ns_to_ms = Inr d"
      by auto
  }
  {
    assume "\<not> stat_n st > 0"
    with n cnt have e: "present ms = []" and z: "\<not> loop_n stat > 0" by auto
    from a z show "stat_avg st = None" by simp
    from m mn e show "stat_min st = None" by simp
  }
qed

text \<open>Two samples and a \<^verbatim>\<open>None\<close>.\<close>

theorem get_stats_summary_witness:
  "present [Some 7, None, Some 3] = [7, 3] \<and>
   sum_list (map abs [7, 3]) < (2::int) ^ 53 \<and>
   round64 (of_int (sum_list [7, 3]) / 1000000) = 5902958103587057 / 590295810358705651712 \<and>
   map_sum id stat_n (priv_get_stats [Some 7, None, Some 3]) = Inr 2 \<and>
   map_sum id stat_total (priv_get_stats [Some 7, None, Some 3])
     = Inr (Finite (5902958103587057 / 590295810358705651712)) \<and>
   map_sum id stat_avg (priv_get_stats [Some 7, None, Some 3])
     = Inr (Some (Finite (5902958103587057 / 1180591620717411303424))) \<and>
   float_div_int (Finite (5902958103587057 / 590295810358705651712)) 2
     = Inr (Finite (5902958103587057 / 1180591620717411303424)) \<and>
   map_sum id stat_min (priv_get_stats [Some 7, None, Some 3])
     = Inr (Some (Finite (1770887431076117 / 590295810358705651712))) \<and>
   int_true_div (Min (set [7, 3])) ns_to_ms
     = Inr (Finite (1770887431076117 / 590295810358705651712))"
proof -
  let ?ms = "[Some 7, None, Some (3::int)]"
  note summary = get_stats_summary[of ?ms]
  have p: "present ?ms = [7, 3]" by simp
  have small: "\<forall>t\<in>set (present ?ms). \<bar>t\<bar> < 2 ^ 53" by simp
  have short: "length ?ms < 2 ^ 53" by simp
  from summary small short obtain st where r: "priv_get_stats ?ms = Inr st" by blast
  from summary r have n: "stat_n st = int (length (present ?ms))" by blast
  then have n2: "stat_n st = 2" by simp
  then have "stat_n st > 0" by simp
  with summary r obtain a d where
    a: "stat_avg st = Some a" "float_div_int (stat_total st) (stat_n st) = Inr a"
    and d: "stat_min st = Some d" "int_true_div (Min (set (present ?ms))) ns_to_ms = Inr d"
    by blast
  have s: "sum_list (map abs (present ?ms)) < 2 ^ 53" by simp
  have rs: "round64 (of_int (sum_list [7, 3]) / 1000000)
              = 5902958103587057 / 590295810358705651712" by code_simp
  from summary r s
  have "stat_total st = Finite (round64 (of_int (sum_list (present ?ms)) / 1000000))" by blast
  with rs have tot: "stat_total st = Finite (5902958103587057 / 590295810358705651712)"
    by simp
  from get_stats_sparse have
    q: "float_div_int (Finite (5902958103587057 / 590295810358705651712)) 2
          = Inr (Finite (5902958103587057 / 1180591620717411303424))"
    and l: "int_true_div 3 ns_to_ms = Inr (Finite (1770887431076117 / 590295810358705651712))"
    by blast+
  from a(2) tot n2 q have av: "a = Finite (5902958103587057 / 1180591620717411303424)" by simp
  from d(2) l have dv: "d = Finite (1770887431076117 / 590295810358705651712)" by simp
  have s': "sum_list (map abs [7, 3]) < (2::int) ^ 53" by simp
  from r n2 tot a(1) av d(1) dv q l p s' rs show ?thesis by simp
qed

text \<open>
  The claim as the specification has it gives the average as 100 nanoseconds in
  milliseconds. The code returns \<open>1844674407370955 / 2\<^sup>6\<^sup>4\<close>, which prints as
  \<^verbatim>\<open>9.999999999999999e-05\<close>: less than \<open>100 / 10\<^sup>6\<close>, and less than the float nearest
  to it, \<^verbatim>\<open>0.0001\<close>.
\<close>

theorem get_stats_summary_counterexample:
  "priv_get_stats [Some 100, Some 50, Some 150] =
     Inr \<lparr>stat_total = Finite (5534023222112865 / 18446744073709551616), stat_n = 3,
          stat_avg = Some (Finite (1844674407370955 / 18446744073709551616)),
          stat_min = Some (Finite (7378697629483821 / 147573952589676412928))\<rparr> \<and>
   (1844674407370955 / 18446744073709551616 :: rat) < 100 / 1000000 \<and>
   round64 (100 / 1000000) = 7378697629483821 / 73786976294838206464 \<and>
   (1844674407370955 / 18446744073709551616 :: rat) < 7378697629483821 / 73786976294838206464"
proof -
  have "round64 (100 / 1000000) = 7378697629483821 / 73786976294838206464" by code_simp
  with get_stats_example show ?thesis by simp
qed

lemma same_iterations_part_commit: "same_iterations s \<Longrightarrow> same_iterations (part_commit sc d s)"
  by (simp add: part_commit_def same_iterations_def keys_record_delta keys_ensure_iteration)

lemma same_iterations_part_exit:
  "same_iterations s \<Longrightarrow> same_iterations (snd (part_exit tm sc r s))"
proof (cases r)
  case None
  assume "same_iterations s"
  then have "same_iterations (snd (read_timer tm (restore_gc sc s)))"
    by (simp add: same_iterations_def read_timer_def restore_gc_def)
  then show ?thesis using None
    by (auto simp: part_exit_def Let_def same_iterations_part_commit split: prod.splits)
next
  case (Some e)
  assume "same_iterations s"
  then show ?thesis using Some by (simp add: part_exit_def restore_gc_def same_iterations_def)
qed

lemma same_iterations_part:
  assumes "same_iterations s" and "\<And>s1. same_iterations s1 \<Longrightarrow> same_iterations (snd (b s1))"
  shows "same_iterations (snd (part tm partname report_apart turn_gc_off b s))"
proof (cases "part_enter tm partname report_apart turn_gc_off s")
  case (Pair x s1)
  show ?thesis
  proof (cases x)
    case (Inl e)
    with Pair have "resolve_partname partname report_apart \<in> names_of (\<not> report_apart) s"
      using part_enter_ok[of partname report_apart s tm turn_gc_off] by auto
    from part_enter_error[OF this, of tm turn_gc_off] assms(1) show ?thesis
      by (simp add: part_def same_iterations_def)
  next
    case (Inr sc)
    with Pair part_enter_Inr_D[of tm partname report_apart turn_gc_off s sc s1] assms(1)
    have "same_iterations s1" by (simp add: same_iterations_def)
    then have "same_iterations (snd (b s1))" by (rule assms(2))
    then have "same_iterations (snd (part_exit tm sc (fst (b s1)) (snd (b s1))))"
      by (rule same_iterations_part_exit)
    with Pair Inr show ?thesis by (auto simp: part_def split: prod.splits)
  qed
qed

text \<open>
  Claim C9. The two stores have the same iterations: both are empty after
  \<^verbatim>\<open>reset\<close> and \<^verbatim>\<open>__call__\<close>; \<^verbatim>\<open>__iter__\<close>, \<^verbatim>\<open>__next__\<close> and a scope
  whose body keeps the invariant keep it; a commit puts the scope's iteration into both. So
  the keys of \<^verbatim>\<open>parts_benches\<close>, over which
  \<^verbatim>\<open>iter_measures_parts_globalized("all")\<close> runs, are the iterations of either store.
\<close>

theorem stores_share_iterations:
  "parts_benches (reset s) = [] \<and> apart_benches (reset s) = [] \<and> same_iterations (reset s) \<and>
   same_iterations (bench_call tm n s) \<and>
   (same_iterations s \<longrightarrow> same_iterations (bench_iter tm s)) \<and>
   (same_iterations s \<longrightarrow> same_iterations (snd (bench_next tm s))) \<and>
   (same_iterations s \<longrightarrow> (\<forall>s1. same_iterations s1 \<longrightarrow> same_iterations (snd (b s1))) \<longrightarrow>
      same_iterations (snd (part tm partname report_apart turn_gc_off b s))) \<and>
   (sc_store sc = store_id s \<longrightarrow>
      sc_i sc \<in> fst ` set (parts_benches (part_commit sc delta s)) \<and>
      sc_i sc \<in> fst ` set (apart_benches (part_commit sc delta s))) \<and>
   (same_iterations s \<longrightarrow>
      iter_measures_parts_globalized ''all'' s =
        Inr (globalized_loop (parts_benches s) (apart_benches s) (map fst (parts_benches s))) \<and>
      set (map fst (parts_benches s)) = fst ` set (parts_benches s) \<union> fst ` set (apart_benches s))"
proof -
  have r: "parts_benches (reset s) = [] \<and> apart_benches (reset s) = [] \<and> same_iterations (reset s)"
    by (simp add: reset_def same_iterations_def)
  have c: "same_iterations (bench_call tm n s)"
    by (simp add: bench_call_def reset_def read_timer_def same_iterations_def Let_def
        split: option.splits)
  have i: "same_iterations s \<longrightarrow> same_iterations (bench_iter tm s)"
    by (simp add: bench_iter_def read_timer_def same_iterations_def Let_def)
  have n: "same_iterations s \<longrightarrow> same_iterations (snd (bench_next tm s))"
    by (simp add: bench_next_def read_timer_def same_iterations_def Let_def split: option.splits)
  have p: "same_iterations s \<longrightarrow> (\<forall>s1. same_iterations s1 \<longrightarrow> same_iterations (snd (b s1))) \<longrightarrow>
      same_iterations (snd (part tm partname report_apart turn_gc_off b s))"
    using same_iterations_part[of s b tm partname report_apart turn_gc_off] by blast
  have k: "sc_store sc = store_id s \<longrightarrow>
      sc_i sc \<in> fst ` set (parts_benches (part_commit sc delta s)) \<and>
      sc_i sc \<in> fst ` set (apart_benches (part_commit sc delta s))"
    by (simp add: part_commit_def keys_record_delta keys_ensure_iteration)
  have g: "same_iterations s \<longrightarrow>
      iter_measures_parts_globalized ''all'' s =
        Inr (globalized_loop (parts_benches s) (apart_benches s) (map fst (parts_benches s))) \<and>
      set (map fst (parts_benches s)) = fst ` set (parts_benches s) \<union> fst ` set (apart_benches s)"
    by (simp add: iter_measures_parts_globalized_def same_iterations_def)
  from r c i n p k g show ?thesis by blast
qed

text \<open>The invariant in the state the example run ends in, and after one more scope.\<close>

theorem stores_share_iterations_witness:
  "same_iterations example_final \<and>
   same_iterations (snd (part example_timer (Some ''Load'') False None pass example_final)) \<and>
   iter_measures_parts_globalized ''all'' example_final = Inr [90, 190, 290] \<and>
   map fst (parts_benches example_final) = [1, 2, 3] \<and>
   map fst (apart_benches example_final) = [1, 2, 3]"
proof -
  have inv: "same_iterations example_final" by code_simp
  have body: "\<forall>s1. same_iterations s1 \<longrightarrow> same_iterations (snd (pass s1))"
    by (simp add: pass_def)
  note facts = stores_share_iterations[of example_final example_timer None pass "Some ''Load''"
      False None]
  from facts inv body
  have kept: "same_iterations (snd (part example_timer (Some ''Load'') False None pass example_final))"
    by blast
  from facts inv have "iter_measures_parts_globalized ''all'' example_final =
        Inr (globalized_loop (parts_benches example_final) (apart_benches example_final)
               (map fst (parts_benches example_final)))"
    by blast
  moreover have "globalized_loop (parts_benches example_final) (apart_benches example_final)
               (map fst (parts_benches example_final)) = [90, 190, 290]"
    by code_simp
  ultimately have totals: "iter_measures_parts_globalized ''all'' example_final = Inr [90, 190, 290]"
    by (simp only:)
  have keys: "map fst (parts_benches example_final) = [1, 2, 3]"
    "map fst (apart_benches example_final) = [1, 2, 3]"
    by code_simp+
  from inv kept totals keys show ?thesis by (intro conjI)
qed

text \<open>A scope whose body ends normally commits the time between its two readings.\<close>

lemma part_normal_exit:
  assumes "part_enter tm partname report_apart turn_gc_off s = (Inr sc, s1)"
    and "b s1 = (None, s2)"
  shows "part tm partname report_apart turn_gc_off b s =
           (None, part_commit sc (tm (ticks s2) - sc_start_time sc)
                    (snd (read_timer tm (restore_gc sc s2))))"
  using assms by (simp add: part_def part_exit_def read_timer_def restore_gc_def Let_def)

text \<open>
  After the example run, in which \<^verbatim>\<open>Load\<close> was opened as an inline part in the first
  iteration, a scope \<^verbatim>\<open>Load\<close> of the other class is refused.
\<close>

theorem part_class_is_fixed_witness:
  "fst (part example_timer (Some ''Load'') True None pass example_final)
     = Some (AttributeError report_apart_message) \<and>
   ticks (snd (part example_timer (Some ''Load'') True None pass example_final))
     = ticks example_final \<and>
   ''Load'' \<in> parts_names (snd (part example_timer (Some ''Load'') True None pass example_final)) \<and>
   ''Load'' \<notin> apart_names (snd (part example_timer (Some ''Load'') True None pass example_final)) \<and>
   iter_measures_part ''Load''
     (snd (part example_timer (Some ''Load'') True None pass example_final)) = Inr [55, 105, 155]"
proof -
  let ?enter = "part_enter example_timer (Some ''Load'') False None example_setup_done"
  have opened: "?enter = (Inr (projr (fst ?enter)), snd ?enter)" by code_simp
  have later: "names_of False (snd ?enter) \<subseteq> names_of False example_final" by code_simp
  have same: "resolve_partname (Some ''Load'') (\<not> False) = resolve_partname (Some ''Load'') False"
    by (simp add: resolve_partname_def)
  from part_class_is_fixed[OF opened] later same
  have refused: "part example_timer (Some ''Load'') (\<not> False) None pass example_final =
          (Some (AttributeError report_apart_message),
           example_final\<lparr>gc_enabled := gc_enabled example_final \<and>
              \<not> resolve_turn_gc_off None example_final\<rparr>)"
    by blast
  have names: "''Load'' \<in> parts_names example_final" "''Load'' \<notin> apart_names example_final"
    by code_simp+
  have samples: "iter_measures_part ''Load'' example_final = Inr [55, 105, 155]" by code_simp
  have unchanged: "iter_measures_part ''Load''
      (example_final\<lparr>gc_enabled := gc_enabled example_final \<and>
              \<not> resolve_turn_gc_off None example_final\<rparr>) = iter_measures_part ''Load'' example_final"
    by (simp add: iter_measures_part_def)
  from refused names samples unchanged show ?thesis by simp
qed

text \<open>The same refused scope leaves the collector off.\<close>

theorem consistency_error_leaves_gc_off_witness:
  "gc_enabled example_final \<and>
   fst (part example_timer (Some ''Load'') True None pass example_final)
     = Some (AttributeError report_apart_message) \<and>
   \<not> gc_enabled (snd (part example_timer (Some ''Load'') True None pass example_final))"
proof -
  have reused: "resolve_partname (Some ''Load'') True \<in> names_of (\<not> True) example_final"
    by code_simp
  have off: "resolve_turn_gc_off None example_final" by code_simp
  have on: "gc_enabled example_final" by code_simp
  from consistency_error_leaves_gc_off[OF reused off on, of example_timer pass] on
  show ?thesis by simp
qed

text \<open>
  Two scopes \<^verbatim>\<open>a\<close> in the first iteration measure 35 and 55 nanoseconds with the
  example timer.
\<close>

theorem same_part_accumulates_witness:
  "fst (twice_body example_iteration) = None \<and>
   sample (parts_benches (snd (twice_body example_iteration))) 1 ''a'' = Some (35 + 55) \<and>
   wf_store (parts_benches (snd (twice_body example_iteration)))"
proof -
  let ?tm = example_timer
  let ?e1 = "part_enter ?tm (Some ''a'') False None example_iteration"
  let ?sc1 = "projr (fst ?e1)"
  let ?s = "snd (read_timer ?tm (restore_gc ?sc1 (snd ?e1)))"
  let ?after1 = "snd (part ?tm (Some ''a'') False None pass example_iteration)"
  let ?e2 = "part_enter ?tm (Some ''a'') False None ?after1"
  let ?sc2 = "projr (fst ?e2)"
  let ?s' = "snd (read_timer ?tm (restore_gc ?sc2 (snd ?e2)))"
  have o1: "?e1 = (Inr ?sc1, snd ?e1)" by code_simp
  have o2: "?e2 = (Inr ?sc2, snd ?e2)" by code_simp
  have b1: "pass (snd ?e1) = (None, snd ?e1)" and b2: "pass (snd ?e2) = (None, snd ?e2)"
    by (simp_all add: pass_def)
  have d1: "?tm (ticks (snd ?e1)) - sc_start_time ?sc1 = 35" by code_simp
  have d2: "?tm (ticks (snd ?e2)) - sc_start_time ?sc2 = 55" by code_simp
  have first: "part ?tm (Some ''a'') False None pass example_iteration
                 = (None, part_commit ?sc1 35 ?s)"
    using part_normal_exit[where b = pass, OF o1 b1] d1 by simp
  have second: "part ?tm (Some ''a'') False None pass ?after1 = (None, part_commit ?sc2 55 ?s')"
    using part_normal_exit[where b = pass, OF o2 b2] d2 by simp
  have run: "twice_body example_iteration = (None, part_commit ?sc2 55 ?s')"
    using first second by (simp add: twice_body_def seq_def)
  have h1: "sc_report_apart ?sc1 = False" "sc_i ?sc1 = 1" "sc_partname ?sc1 = ''a''"
    and h2: "sc_report_apart ?sc2 = False" "sc_i ?sc2 = 1" "sc_partname ?sc2 = ''a''"
    and h3: "sc_store ?sc1 = store_id ?s" "sample (benches_of False ?s) 1 ''a'' = None"
    and h4: "sc_store ?sc2 = store_id ?s'"
    and h5: "wf_store (benches_of False ?s)"
    by code_simp+
  have h6: "benches_of False ?s' = benches_of False (part_commit ?sc1 35 ?s)"
    using first o2 part_enter_Inr_D[OF o2]
    by (simp add: benches_of_def read_timer_def restore_gc_def)
  from same_part_accumulates[OF h1 h2 h3 h4 h6, of 55] h5
  have "sample (benches_of False (part_commit ?sc2 55 ?s')) 1 ''a'' = Some (35 + 55)"
    and "wf_store (benches_of False (part_commit ?sc2 55 ?s'))"
    by blast+
  with run show ?thesis by (simp add: benches_of_def)
qed

text \<open>
  In the run whose second iteration does not measure \<^verbatim>\<open>Load\<close>, both stores have
  three iterations and \<^verbatim>\<open>Load\<close> has two samples.
\<close>

theorem iter_measures_part_lookup_witness:
  "map fst (parts_benches sparse_final) = [1, 2, 3] \<and>
   iter_measures_part ''Load'' sparse_final = Inr [55, 135] \<and>
   iter_measures_part ''Setup'' sparse_final = Inr [35, 85, 115] \<and>
   iter_measures_part ''Store'' sparse_final = Inl (KeyError (no_part_message ''Store''))"
proof -
  have keys: "map fst (parts_benches sparse_final) = [1, 2, 3]" by code_simp
  have l: "''Load'' \<in> parts_names sparse_final" by code_simp
  have s: "''Setup'' \<notin> parts_names sparse_final" "''Setup'' \<in> apart_names sparse_final"
    by code_simp+
  have n: "''Store'' \<notin> parts_names sparse_final \<union> apart_names sparse_final" by code_simp
  have lv: "List.map_filter (\<lambda>i. sample (parts_benches sparse_final) i ''Load'')
              (map fst (parts_benches sparse_final)) = [55, 135]"
    by code_simp
  have sv: "List.map_filter (\<lambda>i. sample (apart_benches sparse_final) i ''Setup'')
              (map fst (apart_benches sparse_final)) = [35, 85, 115]"
    by code_simp
  from iter_measures_part_lookup[of "''Load''" sparse_final] l lv
  have a: "iter_measures_part ''Load'' sparse_final = Inr [55, 135]" by simp
  from iter_measures_part_lookup[of "''Setup''" sparse_final] s sv
  have b: "iter_measures_part ''Setup'' sparse_final = Inr [35, 85, 115]" by simp
  from iter_measures_part_lookup[of "''Store''" sparse_final] n
  have c: "iter_measures_part ''Store'' sparse_final = Inl (KeyError (no_part_message ''Store''))"
    by blast
  from keys a b c show ?thesis by (intro conjI)
qed

end
